theory Spec2Isabelle
  imports Main "HOL-Library.Sublist"
begin

section \<open>Events, channel operations and the job state\<close>

text \<open>
  The dictionaries put on the queue by \<open>app.py\<close> carry a \<open>type\<close> that is one of
  \<open>log_html\<close>, \<open>answer\<close>, \<open>error\<close>, \<open>finished\<close>, and a \<open>content\<close> for the first three.
\<close>

datatype event = Log_html string | Answer string | Error string | Finished

text \<open>
  The worker acts on two shared objects of \<open>generate_response_stream\<close>: the queue
  (\<open>q.put\<close>) and the threading event (\<open>finish_event.set\<close>). The chronological record of
  these operations is the trace of a job.
\<close>

datatype action = Put event | Set_signal

text \<open>
  What \<open>q_a.console.file\<close> may hold: Python's \<open>None\<close>, some stream object of the engine's
  own (identified by a number), or the \<open>SseLogStreamWrapper\<close> instance of the running job.
\<close>

datatype file_obj = Py_None | Stream nat | Sse_wrapper

text \<open>
  The state a job works on. \<open>console\<close> is the module attribute \<open>q_a.console\<close>:
  \<open>None\<close> when \<open>hasattr(q_a, 'console')\<close> is false, \<open>Some None\<close> when the console has no
  attribute \<open>file\<close>, \<open>Some (Some f)\<close> when \<open>q_a.console.file\<close> is \<open>f\<close>.
  \<open>original_q_a_console_file\<close> is the worker's local variable of that name, \<open>buffer\<close> is
  the wrapper's \<open>self.buffer\<close>, \<open>trace\<close> records the queue and signal operations in the
  order they happen. Strings are lists of code points below 256.
\<close>

record job_state =
  console :: "file_obj option option"
  original_q_a_console_file :: file_obj
  buffer :: string
  trace :: "action list"

definition q_put :: "event \<Rightarrow> job_state \<Rightarrow> job_state" where
  "q_put e st = st\<lparr>trace := trace st @ [Put e]\<rparr>"

definition finish_event_set :: "job_state \<Rightarrow> job_state" where
  "finish_event_set st = st\<lparr>trace := trace st @ [Set_signal]\<rparr>"

text \<open>The events pushed onto the queue by a trace, oldest first.\<close>

fun pushed :: "action list \<Rightarrow> event list" where
  "pushed [] = []"
| "pushed (Put e # as) = e # pushed as"
| "pushed (Set_signal # as) = pushed as"

text \<open>Whether the signal is set after a trace (\<open>finished_signal.is_set()\<close>).\<close>

definition is_set :: "action list \<Rightarrow> bool" where
  "is_set as = (Set_signal \<in> set as)"

section \<open>The output capture: \<open>SseLogStreamWrapper\<close>\<close>

text \<open>
  \<open>str.isspace\<close> on the code points below 256: tab to carriage return, the four
  separators 28 to 31, space, next line (133) and no-break space (160).
\<close>

definition isspace :: "char \<Rightarrow> bool" where
  "isspace c = (of_char c \<in> {9, 10, 11, 12, 13, 28, 29, 30, 31, 32, 133, 160 :: nat})"

definition strip :: "string \<Rightarrow> string" where
  "strip s = rev (dropWhile isspace (rev (dropWhile isspace s)))"

text \<open>\<open>self.buffer.index(c)\<close>; \<open>None\<close> stands for the \<open>ValueError\<close>.\<close>

fun str_index :: "string \<Rightarrow> char \<Rightarrow> nat option" where
  "str_index [] c = None"
| "str_index (x # xs) c = (if x = c then Some 0 else map_option Suc (str_index xs c))"

text \<open>
  The converter \<open>self.ansi_conv.convert(_, full=False)\<close> belongs to a library; it is a
  parameter \<open>conv\<close> of the model. The content of a log event is the converted, stripped
  text inside a \<open>div\<close>.
\<close>

definition log_item :: "(string \<Rightarrow> string) \<Rightarrow> string \<Rightarrow> event" where
  "log_item conv text = Log_html (''<div class='log-item'>'' @ conv (strip text) @ ''</div>'')"

lemma str_index_drop: "str_index b c = Some i \<Longrightarrow> length (drop (Suc i) b) < length b"
  by (cases b) auto

text \<open>The \<open>while True\<close> loop of \<open>write\<close>: one iteration per newline found in the buffer.\<close>

function write_loop :: "(string \<Rightarrow> string) \<Rightarrow> job_state \<Rightarrow> job_state" where
  "write_loop conv st =
     (case str_index (buffer st) (CHR 0x0A) of
        None \<Rightarrow> st
      | Some newline_index \<Rightarrow>
          (let line_to_process = take (newline_index + 1) (buffer st);
               st1 = st\<lparr>buffer := drop (newline_index + 1) (buffer st)\<rparr>
           in write_loop conv
                (if strip line_to_process \<noteq> [] then q_put (log_item conv line_to_process) st1
                 else st1)))"
  by pat_completeness auto
termination
  by (relation "measure (\<lambda>(conv, st). length (buffer st))")
     (auto simp: q_put_def dest: str_index_drop)

declare write_loop.simps [simp del]

text \<open>
  \<open>write(s)\<close> for a \<open>str\<close> argument: append to the buffer, then drain complete lines.
  The byte count it returns has no effect on the job and is left out. (\<open>write\<close> is a
  reserved word of the proof language, hence the longer name.)
\<close>

definition wrapper_write :: "(string \<Rightarrow> string) \<Rightarrow> string \<Rightarrow> job_state \<Rightarrow> job_state" where
  "wrapper_write conv s st = write_loop conv (st\<lparr>buffer := buffer st @ s\<rparr>)"

definition flush :: "(string \<Rightarrow> string) \<Rightarrow> job_state \<Rightarrow> job_state" where
  "flush conv st =
     (if strip (buffer st) \<noteq> [] then (q_put (log_item conv (buffer st)) st)\<lparr>buffer := []\<rparr>
      else st)"


text \<open>A run of \<open>write\<close> calls, one per chunk, in order.\<close>

definition writes :: "(string \<Rightarrow> string) \<Rightarrow> string list \<Rightarrow> job_state \<Rightarrow> job_state" where
  "writes conv ws st = foldl (\<lambda>st s. wrapper_write conv s st) st ws"

subsection \<open>Lines of a text\<close>

text \<open>
  To say what the capture emits, a text is cut at its newlines, independently of the
  loop above: \<open>complete_lines\<close> are the pieces that end in a newline (the terminator
  included), \<open>remainder\<close> is the unterminated piece after the last newline. A line is
  non-blank when stripping leaves something.
\<close>

fun lines_from :: "string \<Rightarrow> string \<Rightarrow> string list" where
  "lines_from cur [] = []"
| "lines_from cur (c # cs) =
     (if c = CHR 0x0A then (cur @ [c]) # lines_from [] cs else lines_from (cur @ [c]) cs)"

fun rest_from :: "string \<Rightarrow> string \<Rightarrow> string" where
  "rest_from cur [] = cur"
| "rest_from cur (c # cs) = (if c = CHR 0x0A then rest_from [] cs else rest_from (cur @ [c]) cs)"

definition complete_lines :: "string \<Rightarrow> string list" where
  "complete_lines s = lines_from [] s"

definition remainder :: "string \<Rightarrow> string" where
  "remainder s = rest_from [] s"

definition nonblank :: "string \<Rightarrow> bool" where
  "nonblank l = (strip l \<noteq> [])"

text \<open>A stretch of a trace that consists of pushes of log events only.\<close>

fun is_log :: "action \<Rightarrow> bool" where
  "is_log (Put (Log_html _)) = True"
| "is_log _ = False"

definition only_logs :: "action list \<Rightarrow> bool" where
  "only_logs as = list_all is_log as"

section \<open>Python values\<close>

text \<open>
  The values a JSON body or a session entry can hold (numbers are integers here), and
  Python's truth test on them, as \<open>not x\<close> and \<open>if x\<close> use it.
\<close>

datatype pyval = PNone | PBool bool | PInt int | PStr string
  | PList "pyval list" | PDict "(string \<times> pyval) list"

fun truthy :: "pyval \<Rightarrow> bool" where
  "truthy PNone = False"
| "truthy (PBool b) = b"
| "truthy (PInt i) = (i \<noteq> 0)"
| "truthy (PStr s) = (s \<noteq> [])"
| "truthy (PList xs) = (xs \<noteq> [])"
| "truthy (PDict kvs) = (kvs \<noteq> [])"

text \<open>\<open>d.get(key, default)\<close> on a dictionary; \<open>d.get(key)\<close> has the default \<open>None\<close>.\<close>

definition dict_get :: "(string \<rightharpoonup> pyval) \<Rightarrow> string \<Rightarrow> pyval \<Rightarrow> pyval" where
  "dict_get d key dflt = (case d key of None \<Rightarrow> dflt | Some v \<Rightarrow> v)"

text \<open>
  Exceptions raised while a value is inspected, by their class. All of them derive from
  \<open>Exception\<close>.
\<close>

datatype py_error = TypeError | KeyError | IndexError | AttributeError

text \<open>
  \<open>v.get(key, default)\<close> on any value: only a dictionary has the method, on everything
  else the attribute lookup raises \<open>AttributeError\<close>.
\<close>

fun py_get :: "pyval \<Rightarrow> string \<Rightarrow> pyval \<Rightarrow> py_error + pyval" where
  "py_get (PDict kvs) key dflt = Inr (case map_of kvs key of None \<Rightarrow> dflt | Some v \<Rightarrow> v)"
| "py_get _ key dflt = Inl AttributeError"

section \<open>The worker: \<open>rag_worker\<close>\<close>

text \<open>
  The engine (module \<open>q_a\<close>) is not part of the repository; it is a parameter. A call
  into it is described by what it does to \<open>q_a.console.file\<close> while it runs, a list
  of \<open>write\<close> and \<open>flush\<close> calls, and by how it ends: \<open>Inl x\<close> when it raises \<open>x\<close>,
  \<open>Inr v\<close> when it returns \<open>v\<close>. What is raised is an instance \<open>e\<close> of a class
  derived from \<open>Exception\<close>, or of a class derived from \<open>BaseException\<close> only
  (\<open>SystemExit\<close> from \<open>sys.exit\<close>, \<open>KeyboardInterrupt\<close>); in both cases the text is
  \<open>str(e)\<close>. The clause \<open>except Exception\<close> catches the first kind only.
\<close>

datatype sink_op = Write string | Flush

datatype raised = Exception_derived string | Base_exception_only string

type_synonym 'a call = "sink_op list \<times> (raised + 'a)"

record neo4j_config =
  uri :: string
  user :: string
  password :: string

text \<open>\<open>rag_system.answer_question(question)\<close>, and the constructor \<open>q_a.Neo4jRAGSystem(...)\<close>.\<close>

type_synonym rag_system = "pyval \<Rightarrow> string call"

type_synonym rag_factory = "neo4j_config \<Rightarrow> pyval \<Rightarrow> pyval \<Rightarrow> rag_system call"

text \<open>
  An operation of the engine on \<open>q_a.console.file\<close> reaches the wrapper exactly when the
  console's file is bound to it.
\<close>

definition file_op :: "(string \<Rightarrow> string) \<Rightarrow> sink_op \<Rightarrow> job_state \<Rightarrow> job_state" where
  "file_op conv op st =
     (if console st = Some (Some Sse_wrapper)
      then (case op of Write s \<Rightarrow> wrapper_write conv s st | Flush \<Rightarrow> flush conv st)
      else st)"

definition run_output :: "(string \<Rightarrow> string) \<Rightarrow> sink_op list \<Rightarrow> job_state \<Rightarrow> job_state" where
  "run_output conv ops st = foldl (\<lambda>st op. file_op conv op st) st ops"

text \<open>
  The \<open>try\<close> block. The result says how the block was left: \<open>None\<close> normally (also by
  the early \<open>return\<close>), \<open>Some x\<close> by raising \<open>x\<close>.
\<close>

definition rag_worker_try ::
  "(string \<Rightarrow> string) \<Rightarrow> rag_factory \<Rightarrow> neo4j_config \<Rightarrow> pyval \<Rightarrow> pyval \<Rightarrow> pyval \<Rightarrow>
   job_state \<Rightarrow> raised option \<times> job_state" where
  "rag_worker_try conv Neo4jRAGSystem req_session question multi_hop budget st =
     (let st1 = (case console st of
                   Some (Some f) \<Rightarrow> st\<lparr>original_q_a_console_file := f\<rparr>
                 | _ \<Rightarrow> st)
      in case console st1 of
           None \<Rightarrow>
             (None, finish_event_set
                      (q_put (Error ''Internal error: q_a.console not found.'') st1))
         | Some _ \<Rightarrow>
             (let st2 = st1\<lparr>console := Some (Some Sse_wrapper)\<rparr>
              in case Neo4jRAGSystem req_session multi_hop budget of
                   (out1, Inl e) \<Rightarrow> (Some e, run_output conv out1 st2)
                 | (out1, Inr rag_system) \<Rightarrow>
                     (let st3 = run_output conv out1 st2
                      in case rag_system question of
                           (out2, Inl e) \<Rightarrow> (Some e, run_output conv out2 st3)
                         | (out2, Inr final_answer) \<Rightarrow>
                             (None, q_put (Answer final_answer)
                                      (flush conv (run_output conv out2 st3))))))"

text \<open>The handler \<open>except Exception as e\<close>: flush, then push the error event.\<close>

definition rag_worker_except :: "(string \<Rightarrow> string) \<Rightarrow> string \<Rightarrow> job_state \<Rightarrow> job_state" where
  "rag_worker_except conv e st = q_put (Error (''An error occurred: '' @ e)) (flush conv st)"

text \<open>The \<open>finally\<close> block: restore, set the signal, push \<open>finished\<close>.\<close>

definition rag_worker_finally :: "job_state \<Rightarrow> job_state" where
  "rag_worker_finally st =
     (let st1 = (if original_q_a_console_file st \<noteq> Py_None \<and> console st \<noteq> None
                 then st\<lparr>console := Some (Some (original_q_a_console_file st))\<rparr>
                 else st)
      in q_put Finished (finish_event_set st1))"

text \<open>
  The state at the start of a job: the module's console as it is found, the local
  variable \<open>None\<close>, a fresh wrapper, an empty queue and an unset signal.
\<close>

definition new_job :: "file_obj option option \<Rightarrow> job_state" where
  "new_job c = \<lparr>console = c, original_q_a_console_file = Py_None, buffer = [], trace = []\<rparr>"

text \<open>
  The whole worker: the \<open>try\<close> block, the handler when what was raised derives from
  \<open>Exception\<close>, and the \<open>finally\<close> block in every case. The first component of the
  result is what leaves the function by being raised, if anything; the second is the
  state the worker leaves behind.
\<close>

definition rag_worker ::
  "(string \<Rightarrow> string) \<Rightarrow> rag_factory \<Rightarrow> neo4j_config \<Rightarrow> pyval \<Rightarrow> pyval \<Rightarrow> pyval \<Rightarrow>
   file_obj option option \<Rightarrow> raised option \<times> job_state" where
  "rag_worker conv Neo4jRAGSystem req_session question multi_hop budget c =
     (case rag_worker_try conv Neo4jRAGSystem req_session question multi_hop budget (new_job c) of
        (None, st) \<Rightarrow> (None, rag_worker_finally st)
      | (Some (Exception_derived e), st) \<Rightarrow>
          (None, rag_worker_finally (rag_worker_except conv e st))
      | (Some (Base_exception_only e), st) \<Rightarrow>
          (Some (Base_exception_only e), rag_worker_finally st))"

text \<open>The state in which the engine starts: the console's file bound to the wrapper.\<close>

definition redirected :: "file_obj option \<Rightarrow> job_state" where
  "redirected f = \<lparr>console = Some (Some Sse_wrapper),
                   original_q_a_console_file = (case f of None \<Rightarrow> Py_None | Some x \<Rightarrow> x),
                   buffer = [], trace = []\<rparr>"

text \<open>
  What an operation on the capture can do to a job's state: it pushes log events and
  touches neither the console nor the saved original.
\<close>

definition extends_by_logs :: "job_state \<Rightarrow> job_state \<Rightarrow> bool" where
  "extends_by_logs st st' =
     (console st' = console st
      \<and> original_q_a_console_file st' = original_q_a_console_file st
      \<and> (\<exists>ls. trace st' = trace st @ ls \<and> only_logs ls))"

subsection \<open>Example jobs\<close>

text \<open>
  The two end-to-end scenarios of the specification, as inputs for evaluation: an engine
  that writes two lines of progress and returns \<open>X is ...\<close>, and an engine whose
  \<open>answer_question\<close> raises \<open>ConnectionError("db unreachable")\<close>. Beside them, an
  engine that leaves its second line of progress without a newline and does not flush,
  and an engine whose \<open>answer_question\<close> calls \<open>sys.exit("fatal")\<close>. The question is
  \<open>What is X?\<close>, with multi-hop search enabled and the budget \<open>Deeper\<close>.
\<close>

definition scenario_config :: neo4j_config where
  "scenario_config = \<lparr>uri = ''bolt://localhost:7687'', user = ''neo4j'', password = ''secret''\<rparr>"

definition scenario_engine :: rag_factory where
  "scenario_engine cfg multi_hop budget =
     ([], Inr (\<lambda>question. ([Write (''step 1'' @ [CHR 0x0A] @ ''step''),
                              Write ('' 2'' @ [CHR 0x0A]), Flush],
                             Inr ''X is ...'')))"

definition failing_engine :: rag_factory where
  "failing_engine cfg multi_hop budget =
     ([], Inr (\<lambda>question. ([Write (''step 1'' @ [CHR 0x0A])],
                             Inl (Exception_derived ''db unreachable''))))"

definition unterminated_engine :: rag_factory where
  "unterminated_engine cfg multi_hop budget =
     ([], Inr (\<lambda>question. ([Write (''step 1'' @ [CHR 0x0A] @ ''step''), Write '' 2''],
                             Inr ''X is ...'')))"

definition exiting_engine :: rag_factory where
  "exiting_engine cfg multi_hop budget =
     ([], Inr (\<lambda>question. ([Write (''step 1'' @ [CHR 0x0A])],
                             Inl (Base_exception_only ''fatal''))))"

definition scenario_job ::
  "rag_factory \<Rightarrow> file_obj option option \<Rightarrow> raised option \<times> job_state" where
  "scenario_job engine c =
     rag_worker (\<lambda>x. x) engine scenario_config (PStr ''What is X?'') (PBool True)
       (PStr ''Deeper'') c"

section \<open>The dispatcher loop of \<open>generate_response_stream\<close>\<close>

text \<open>
  The loop runs beside the worker thread. A state of the two together: the operations the
  worker has still to perform, the queue, the signal, the messages yielded to the client
  so far, and where the loop stands: at the test \<open>finished_signal.is_set()\<close>, at the test
  \<open>message_queue.empty()\<close>, inside \<open>message_queue.get(timeout=0.1)\<close>, or left.
\<close>

datatype loop_pc = Test_signal | Test_empty | Get | Closed

record stream_state =
  pending :: "action list"
  message_queue :: "event list"
  finished_signal :: bool
  yielded :: "event list"
  pc :: loop_pc

text \<open>
  What can happen next: the worker performs its next operation; the loop performs its next
  step; serialising the message just taken raises (\<open>except Exception\<close>, \<open>break\<close>); the
  client goes away and the generator is closed.
\<close>

datatype choice = Worker_step | Loop_step | Yield_error | Client_close

fun step :: "choice \<Rightarrow> stream_state \<Rightarrow> stream_state" where
  "step Worker_step s =
     (case pending s of
        [] \<Rightarrow> s
      | Put e # as \<Rightarrow> s\<lparr>pending := as, message_queue := message_queue s @ [e]\<rparr>
      | Set_signal # as \<Rightarrow> s\<lparr>pending := as, finished_signal := True\<rparr>)"
| "step Loop_step s =
     (case pc s of
        Test_signal \<Rightarrow> if \<not> finished_signal s then s\<lparr>pc := Get\<rparr> else s\<lparr>pc := Test_empty\<rparr>
      | Test_empty \<Rightarrow> if message_queue s \<noteq> [] then s\<lparr>pc := Get\<rparr> else s\<lparr>pc := Closed\<rparr>
      | Get \<Rightarrow>
          (case message_queue s of
             [] \<Rightarrow> s\<lparr>pc := Test_signal\<rparr>
           | msg # rest \<Rightarrow>
               s\<lparr>message_queue := rest, yielded := yielded s @ [msg],
                 pc := (if msg = Finished then Closed else Test_signal)\<rparr>)
      | Closed \<Rightarrow> s)"
| "step Yield_error s =
     (case pc s of
        Get \<Rightarrow>
          (case message_queue s of
             [] \<Rightarrow> s
           | msg # rest \<Rightarrow> s\<lparr>message_queue := rest, pc := Closed\<rparr>)
      | _ \<Rightarrow> s)"
| "step Client_close s = s\<lparr>pc := Closed\<rparr>"

definition run :: "choice list \<Rightarrow> stream_state \<Rightarrow> stream_state" where
  "run schedule s = foldl (\<lambda>s c. step c s) s schedule"

text \<open>The state when the worker thread has been started and the loop is entered.\<close>

definition start :: "action list \<Rightarrow> stream_state" where
  "start w = \<lparr>pending = w, message_queue = [], finished_signal = False, yielded = [],
              pc = Test_signal\<rparr>"

text \<open>
  What holds of every state the two threads can reach, for a producer that pushes the
  events \<open>produced\<close>: the messages yielded, then at most one message lost to a
  serialisation error (after which the loop is left), then the queue, then what is still
  to be pushed, make up \<open>produced\<close>; and once \<open>finished\<close> has been yielded it is the last
  message yielded and the loop is left.
\<close>

definition stream_inv :: "event list \<Rightarrow> stream_state \<Rightarrow> bool" where
  "stream_inv produced s =
     ((\<exists>dropped. produced = yielded s @ dropped @ message_queue s @ pushed (pending s)
          \<and> (dropped \<noteq> [] \<longrightarrow> pc s = Closed))
      \<and> (Finished \<in> set (yielded s) \<longrightarrow>
           pc s = Closed \<and> (\<exists>ys. yielded s = ys @ [Finished] \<and> Finished \<notin> set ys)))"

section \<open>Job submission: \<open>ask_question\<close>\<close>

text \<open>
  The handler either answers at once with a status and a message, or returns the event
  stream of a job with the three parameters handed to the worker. The worker thread is
  started by the stream's generator, so only the second kind of response starts one.
  The session is a dictionary. The body is whatever value \<open>request.json\<close> returns: the
  handler calls \<open>data.get\<close> on it without looking at its type, and where that raises,
  the exception leaves the handler and the framework answers with status 500.
\<close>

datatype response = Response nat string | Event_stream pyval pyval pyval

definition ask_question :: "(string \<rightharpoonup> pyval) \<Rightarrow> pyval \<Rightarrow> response" where
  "ask_question session data =
     (if session ''neo4j_config'' = None \<or> \<not> truthy (dict_get session ''neo4j_connected'' PNone)
      then Response 403 ''Not connected to Neo4j. Please login.''
      else
        (case py_get data ''question'' PNone of
           Inl e \<Rightarrow> Response 500 ''Internal Server Error''
         | Inr question_text \<Rightarrow>
             (case py_get data ''enable_multi_hop'' (PBool True) of
                Inl e \<Rightarrow> Response 500 ''Internal Server Error''
              | Inr enable_multi_hop \<Rightarrow>
                  (case py_get data ''search_budget'' (PStr ''Deeper'') of
                     Inl e \<Rightarrow> Response 500 ''Internal Server Error''
                   | Inr search_budget \<Rightarrow>
                       if \<not> truthy question_text then Response 400 ''No question provided.''
                       else Event_stream question_text enable_multi_hop search_budget))))"

section \<open>Image description: \<open>describe_medical_image\<close>\<close>

text \<open>\<open>key in v\<close>: membership in a dictionary's keys or a list, a substring test on a string.\<close>

fun py_in :: "string \<Rightarrow> pyval \<Rightarrow> py_error + bool" where
  "py_in key (PDict kvs) = Inr (key \<in> set (map fst kvs))"
| "py_in key (PList xs) = Inr (PStr key \<in> set xs)"
| "py_in key (PStr s) = Inr (sublist key s)"
| "py_in key _ = Inl TypeError"

text \<open>\<open>v[key]\<close> for a string key.\<close>

fun py_getitem :: "pyval \<Rightarrow> string \<Rightarrow> py_error + pyval" where
  "py_getitem (PDict kvs) key = (case map_of kvs key of None \<Rightarrow> Inl KeyError | Some v \<Rightarrow> Inr v)"
| "py_getitem _ key = Inl TypeError"

text \<open>\<open>len(v)\<close>.\<close>

fun py_len :: "pyval \<Rightarrow> py_error + nat" where
  "py_len (PDict kvs) = Inr (length kvs)"
| "py_len (PList xs) = Inr (length xs)"
| "py_len (PStr s) = Inr (length s)"
| "py_len _ = Inl TypeError"

text \<open>\<open>v[0]\<close>; the keys of a dictionary read from JSON are strings, so \<open>0\<close> is not among them.\<close>

fun py_first :: "pyval \<Rightarrow> py_error + pyval" where
  "py_first (PList []) = Inl IndexError"
| "py_first (PList (x # xs)) = Inr x"
| "py_first (PStr []) = Inl IndexError"
| "py_first (PStr (c # cs)) = Inr (PStr [c])"
| "py_first (PDict kvs) = Inl KeyError"
| "py_first _ = Inl TypeError"

definition and_then :: "'e + 'a \<Rightarrow> ('a \<Rightarrow> 'e + 'b) \<Rightarrow> 'e + 'b" where
  "and_then r f = (case r of Inl e \<Rightarrow> Inl e | Inr v \<Rightarrow> f v)"

text \<open>
  How the request to the description service ends: one of the three kinds of exception the
  function distinguishes, or a response with its status code, its text, and the outcome of
  \<open>response.json()\<close> (\<open>Inl m\<close> when decoding raises with message \<open>m\<close>).
\<close>

datatype post_result = Post_timeout | Post_request_exception string | Post_exception string
  | Post_response nat string "string + pyval"

text \<open>
  The surroundings of one call: whether the path exists, what \<open>encode_image_to_base64\<close>
  gives (\<open>None\<close> on failure), and how the request ends.
\<close>

record describe_env =
  path_exists :: "string \<Rightarrow> bool"
  encode_image_to_base64 :: "string \<Rightarrow> string option"
  post :: post_result

text \<open>
  The second component of the function's result is a text: a description taken from the
  response, or one of the failure messages, named here by the point that produces them.
  A decoding error is caught by one of the last two handlers, which one depends on the
  version of the HTTP library; both return a failure, here \<open>Decode_failed\<close>.
\<close>

datatype describe_failure = Image_missing | Encode_failed | Timed_out | Network_error string
  | Generation_failed string | Generation_failed_on py_error | Decode_failed string
  | Bad_format | Request_failed nat string

datatype description = Described pyval | Failure_text describe_failure | Fallback_text

text \<open>Reading the description out of a decoded response; the \<open>if\<close>/\<open>elif\<close>/\<open>else\<close> on \<open>result\<close>.\<close>

definition extract_description :: "pyval \<Rightarrow> py_error + bool \<times> description" where
  "extract_description result =
     and_then (and_then (py_in ''data'' result) (\<lambda>b.
                 if b then and_then (py_getitem result ''data'') (py_in ''content'') else Inr False))
       (\<lambda>has_content.
          if has_content
          then and_then (and_then (py_getitem result ''data'') (\<lambda>d. py_getitem d ''content''))
                 (\<lambda>content. Inr (True, Described content))
          else and_then (and_then (py_in ''choices'' result) (\<lambda>b.
                   if b then and_then (and_then (py_getitem result ''choices'') py_len) (\<lambda>n. Inr (n > 0))
                   else Inr False))
                 (\<lambda>has_choices.
                    if has_choices
                    then and_then (and_then (and_then (and_then (py_getitem result ''choices'') py_first)
                                     (\<lambda>c. py_get c ''message'' (PDict [])))
                                     (\<lambda>m. py_get m ''content'' (PStr [])))
                           (\<lambda>content. Inr (True, Described content))
                    else Inr (False, Failure_text Bad_format)))"

definition describe_medical_image :: "describe_env \<Rightarrow> string \<Rightarrow> bool \<times> description" where
  "describe_medical_image env segmented_image_path =
     (if segmented_image_path = [] \<or> \<not> path_exists env segmented_image_path
      then (False, Failure_text Image_missing)
      else case encode_image_to_base64 env segmented_image_path of
             None \<Rightarrow> (False, Failure_text Encode_failed)
           | Some segmented_image_b64 \<Rightarrow>
               if segmented_image_b64 = [] then (False, Failure_text Encode_failed)
               else (case post env of
                       Post_timeout \<Rightarrow> (False, Failure_text Timed_out)
                     | Post_request_exception m \<Rightarrow> (False, Failure_text (Network_error m))
                     | Post_exception m \<Rightarrow> (False, Failure_text (Generation_failed m))
                     | Post_response status_code text result \<Rightarrow>
                         if status_code = 200
                         then (case result of
                                 Inl m \<Rightarrow> (False, Failure_text (Decode_failed m))
                               | Inr r \<Rightarrow>
                                   (case extract_description r of
                                      Inl e \<Rightarrow> (False, Failure_text (Generation_failed_on e))
                                    | Inr v \<Rightarrow> v))
                         else (False, Failure_text (Request_failed status_code text))))"

section \<open>Image upload: \<open>upload_image\<close>\<close>

text \<open>
  \<open>str.lower\<close> on code points below 256, \<open>rsplit('.', 1)[1]\<close> on a name that contains a
  dot, and \<open>os.path.basename\<close> on a POSIX path.
\<close>

definition lower_char :: "char \<Rightarrow> char" where
  "lower_char c =
     (let n = of_char c :: nat
      in if (65 \<le> n \<and> n \<le> 90) \<or> (192 \<le> n \<and> n \<le> 222 \<and> n \<noteq> 215) then char_of (n + 32) else c)"

definition extension :: "string \<Rightarrow> string" where
  "extension filename = rev (takeWhile (\<lambda>c. c \<noteq> CHR ''.'') (rev filename))"

definition basename :: "string \<Rightarrow> string" where
  "basename path = rev (takeWhile (\<lambda>c. c \<noteq> CHR ''/'') (rev path))"

definition allowed_extensions :: "string set" where
  "allowed_extensions = {''png'', ''jpg'', ''jpeg'', ''gif'', ''bmp'', ''tiff''}"

text \<open>
  The segmentation service is not part of the repository; the results of its two calls
  are parameters. \<open>save_uploaded_image\<close> raises or returns a path or \<open>None\<close>;
  \<open>segment_image\<close> raises or returns the segmented path, the original path and an
  information value of some type \<open>'i\<close>, the paths possibly \<open>None\<close>.
\<close>

record 'i upload_env =
  session :: "string \<rightharpoonup> pyval"
  files :: "string \<rightharpoonup> string"
  save_uploaded_image :: "string + string option"
  segment_image :: "string \<Rightarrow> string + (string option \<times> string option \<times> 'i)"
  describe :: describe_env

datatype 'i upload_failure = Not_connected | No_file_uploaded | No_file_selected
  | Unsupported_type | Save_failed | Segmentation_failed 'i | Segmentation_error string

record 'i upload_result =
  success :: bool
  original_image :: string
  segmented_image :: string
  segmentation_info :: 'i
  description :: description

datatype 'i upload_response = Failed nat "'i upload_failure" | Ok nat "'i upload_result"

text \<open>The body of the \<open>try\<close> block once the image has been segmented.\<close>

definition describe_and_reply ::
  "describe_env \<Rightarrow> string \<Rightarrow> string option \<Rightarrow> 'i \<Rightarrow> 'i upload_response" where
  "describe_and_reply env segmented_path original_path seg_info =
     (case describe_medical_image env segmented_path of
        (ok, text) \<Rightarrow>
          (let description = (if \<not> ok then Fallback_text else text)
           in case original_path of
                None \<Rightarrow>
                  Failed 500 (Segmentation_error
                    ''expected str, bytes or os.PathLike object, not NoneType'')
              | Some original \<Rightarrow>
                  Ok 200 \<lparr>success = True,
                          original_image = ''/uploads/'' @ basename original,
                          segmented_image = ''/segmented/'' @ basename segmented_path,
                          segmentation_info = seg_info,
                          description = description\<rparr>))"

definition upload_image :: "'i upload_env \<Rightarrow> 'i upload_response" where
  "upload_image rq =
     (if session rq ''neo4j_config'' = None
         \<or> \<not> truthy (dict_get (session rq) ''neo4j_connected'' PNone)
      then Failed 403 Not_connected
      else case files rq ''image'' of
        None \<Rightarrow> Failed 400 No_file_uploaded
      | Some filename \<Rightarrow>
          if filename = [] then Failed 400 No_file_selected
          else if \<not> (CHR ''.'' \<in> set filename
                      \<and> map lower_char (extension filename) \<in> allowed_extensions)
          then Failed 400 Unsupported_type
          else (case save_uploaded_image rq of
                  Inl e \<Rightarrow> Failed 500 (Segmentation_error e)
                | Inr None \<Rightarrow> Failed 500 Save_failed
                | Inr (Some uploaded_path) \<Rightarrow>
                    if uploaded_path = [] then Failed 500 Save_failed
                    else (case segment_image rq uploaded_path of
                            Inl e \<Rightarrow> Failed 500 (Segmentation_error e)
                          | Inr (None, original_path, seg_info) \<Rightarrow>
                              Failed 500 (Segmentation_failed seg_info)
                          | Inr (Some segmented_path, original_path, seg_info) \<Rightarrow>
                              if segmented_path = [] then Failed 500 (Segmentation_failed seg_info)
                              else describe_and_reply (describe rq) segmented_path
                                     original_path seg_info)))"

section \<open>Properties of the output capture\<close>

lemma str_index_None: "str_index b c = None \<longleftrightarrow> c \<notin> set b"
  by (induction b) auto

lemma str_index_Some:
  "str_index b c = Some i \<Longrightarrow>
   \<exists>r. b = take i b @ c # r \<and> c \<notin> set (take i b) \<and> take (Suc i) b = take i b @ [c]
       \<and> drop (Suc i) b = r"
proof (induction b arbitrary: i)
  case Nil
  then show ?case by simp
next
  case (Cons x xs)
  show ?case
  proof (cases "x = c")
    case True
    with Cons.prems show ?thesis by simp
  next
    case False
    with Cons.prems obtain j where j: "str_index xs c = Some j" "i = Suc j" by auto
    from Cons.IH[OF j(1)] obtain r where
      "xs = take j xs @ c # r" "c \<notin> set (take j xs)" "take (Suc j) xs = take j xs @ [c]"
      "drop (Suc j) xs = r" by blast
    with False j show ?thesis by auto
  qed
qed

lemma lines_from_first:
  "CHR 0x0A \<notin> set p \<Longrightarrow>
   lines_from cur (p @ CHR 0x0A # r) = (cur @ p @ [CHR 0x0A]) # lines_from [] r"
  by (induction p arbitrary: cur) auto

lemma rest_from_first: "CHR 0x0A \<notin> set p \<Longrightarrow> rest_from cur (p @ CHR 0x0A # r) = rest_from [] r"
  by (induction p arbitrary: cur) auto

lemma lines_from_none: "CHR 0x0A \<notin> set p \<Longrightarrow> lines_from cur p = []"
  by (induction p arbitrary: cur) auto

lemma rest_from_none: "CHR 0x0A \<notin> set p \<Longrightarrow> rest_from cur p = cur @ p"
  by (induction p arbitrary: cur) auto

text \<open>The loop emits the non-blank complete lines of the buffer and keeps the remainder.\<close>

lemma write_loop_spec:
  "write_loop conv st =
     st\<lparr>buffer := remainder (buffer st),
        trace := trace st @ map (\<lambda>l. Put (log_item conv l))
                             (filter nonblank (complete_lines (buffer st)))\<rparr>"
proof (induction conv st rule: write_loop.induct)
  case (1 conv st)
  show ?case
  proof (cases "str_index (buffer st) (CHR 0x0A)")
    case None
    then have "CHR 0x0A \<notin> set (buffer st)" by (simp add: str_index_None)
    then show ?thesis using None
      by (subst write_loop.simps)
         (simp add: complete_lines_def remainder_def lines_from_none rest_from_none)
  next
    case (Some i)
    from str_index_Some[OF Some] obtain r where r: "buffer st = take i (buffer st) @ CHR 0x0A # r"
      "CHR 0x0A \<notin> set (take i (buffer st))"
      "take (Suc i) (buffer st) = take i (buffer st) @ [CHR 0x0A]"
      "drop (Suc i) (buffer st) = r" by blast
    have L: "complete_lines (buffer st) = (take i (buffer st) @ [CHR 0x0A]) # complete_lines r"
      unfolding complete_lines_def by (subst r(1)) (simp add: lines_from_first[OF r(2)])
    have R: "remainder (buffer st) = remainder r"
      unfolding remainder_def by (subst r(1)) (simp add: rest_from_first[OF r(2)])
    have r3: "take (i + 1) (buffer st) = take i (buffer st) @ [CHR 0x0A]"
      and r4: "drop (i + 1) (buffer st) = r" using r(3,4) by simp_all
    let ?line = "take i (buffer st) @ [CHR 0x0A]"
    let ?st1 = "st\<lparr>buffer := r\<rparr>"
    let ?next = "if strip ?line \<noteq> [] then q_put (log_item conv ?line) ?st1 else ?st1"
    have unroll: "write_loop conv st = write_loop conv ?next"
      by (subst write_loop.simps) (simp only: Some option.case Let_def r3 r4)
    have IH: "write_loop conv ?next =
        ?next\<lparr>buffer := remainder (buffer ?next),
               trace := trace ?next @ map (\<lambda>l. Put (log_item conv l))
                                         (filter nonblank (complete_lines (buffer ?next)))\<rparr>"
      using "1.IH"[OF Some refl refl, unfolded r3 r4] .
    show ?thesis
      unfolding unroll IH by (simp add: L R q_put_def nonblank_def[abs_def])
  qed
qed

lemma lines_from_append:
  "lines_from cur (x @ y) = lines_from cur x @ lines_from (rest_from cur x) y"
  by (induction x arbitrary: cur) auto

lemma rest_from_append: "rest_from cur (x @ y) = rest_from (rest_from cur x) y"
  by (induction x arbitrary: cur) auto

lemma rest_from_newline: "CHR 0x0A \<in> set (rest_from cur x) \<Longrightarrow> CHR 0x0A \<in> set cur"
proof (induction x arbitrary: cur)
  case Nil
  then show ?case by simp
next
  case (Cons a x)
  show ?case
  proof (cases "a = CHR 0x0A")
    case True
    with Cons.prems have "CHR 0x0A \<in> set (rest_from [] x)" by simp
    from Cons.IH[OF this] show ?thesis by simp
  next
    case False
    with Cons.prems have "CHR 0x0A \<in> set (rest_from (cur @ [a]) x)" by simp
    from Cons.IH[OF this] False show ?thesis by simp
  qed
qed

lemma remainder_no_newline: "CHR 0x0A \<notin> set (remainder x)"
  using rest_from_newline[of "[]" x] by (auto simp add: remainder_def)

lemma complete_lines_append:
  "complete_lines (x @ y) = complete_lines x @ complete_lines (remainder x @ y)"
proof -
  have "lines_from (remainder x) y = lines_from [] (remainder x @ y)"
    by (simp add: lines_from_append lines_from_none rest_from_none remainder_no_newline)
  then show ?thesis
    by (simp add: complete_lines_def lines_from_append remainder_def)
qed

lemma remainder_append: "remainder (x @ y) = remainder (remainder x @ y)"
proof -
  have "rest_from (remainder x) y = rest_from [] (remainder x @ y)"
    by (simp add: rest_from_append rest_from_none remainder_no_newline)
  then show ?thesis
    by (simp add: remainder_def rest_from_append)
qed

lemma wrapper_write_spec:
  "wrapper_write conv s st =
     st\<lparr>buffer := remainder (buffer st @ s),
        trace := trace st @ map (\<lambda>l. Put (log_item conv l))
                             (filter nonblank (complete_lines (buffer st @ s)))\<rparr>"
  by (simp add: wrapper_write_def write_loop_spec)

lemma pushed_append: "pushed (xs @ ys) = pushed xs @ pushed ys"
  by (induction xs rule: pushed.induct) auto

lemma pushed_map_Put: "pushed (map (\<lambda>l. Put (f l)) ls) = map f ls"
  by (induction ls) auto

lemma writes_spec:
  "buffer st = [] \<Longrightarrow>
   writes conv ws st =
     st\<lparr>buffer := remainder (concat ws),
        trace := trace st @ map (\<lambda>l. Put (log_item conv l))
                             (filter nonblank (complete_lines (concat ws)))\<rparr>"
proof (induction ws rule: rev_induct)
  case Nil
  then show ?case by (simp add: writes_def remainder_def complete_lines_def)
next
  case (snoc w ws)
  have "writes conv (ws @ [w]) st = wrapper_write conv w (writes conv ws st)"
    by (simp add: writes_def)
  then show ?case
    by (simp add: snoc wrapper_write_spec complete_lines_append[of "concat ws" w]
                  remainder_append[of "concat ws" w])
qed

lemma length_lines_from: "length (lines_from cur s) = count_list s (CHR 0x0A)"
  by (induction s arbitrary: cur) auto

text \<open>
  C6, as the code has it. After any run of \<open>write\<close> calls on a fresh capture, the log
  events emitted are the non-blank complete lines of the text written, one event each and
  in order; a blank line is consumed without an event. So the number of events is the
  number of non-blank lines among the consumed ones, which are as many as the newlines
  written, and is at most that number. A \<open>flush\<close> that follows emits exactly one more event
  when the remaining buffer is non-blank and none otherwise.
\<close>

theorem capture_emits_nonblank_lines:
  "pushed (trace (writes conv ws (st\<lparr>buffer := [], trace := []\<rparr>)))
     = map (log_item conv) (filter nonblank (complete_lines (concat ws)))
   \<and> length (complete_lines (concat ws)) = count_list (concat ws) (CHR 0x0A)
   \<and> length (pushed (trace (writes conv ws (st\<lparr>buffer := [], trace := []\<rparr>))))
       \<le> count_list (concat ws) (CHR 0x0A)
   \<and> buffer (writes conv ws (st\<lparr>buffer := [], trace := []\<rparr>)) = remainder (concat ws)
   \<and> pushed (trace (flush conv (writes conv ws (st\<lparr>buffer := [], trace := []\<rparr>))))
       = pushed (trace (writes conv ws (st\<lparr>buffer := [], trace := []\<rparr>)))
         @ (if nonblank (remainder (concat ws)) then [log_item conv (remainder (concat ws))]
            else [])"
proof -
  let ?s0 = "st\<lparr>buffer := [], trace := []\<rparr>"
  have W: "writes conv ws ?s0
      = ?s0\<lparr>buffer := remainder (concat ws),
            trace := trace ?s0 @ map (\<lambda>l. Put (log_item conv l))
                                   (filter nonblank (complete_lines (concat ws)))\<rparr>"
    by (rule writes_spec) simp
  have n: "length (complete_lines (concat ws)) = count_list (concat ws) (CHR 0x0A)"
    by (simp add: complete_lines_def length_lines_from)
  have le: "length (filter nonblank (complete_lines (concat ws))) \<le> count_list (concat ws) (CHR 0x0A)"
    using length_filter_le[of nonblank "complete_lines (concat ws)"] n by simp
  show ?thesis
    unfolding W using n le
    by (simp add: pushed_map_Put flush_def q_put_def pushed_append nonblank_def)
qed

text \<open>
  C6 as the claim states it fails already for one write of a single newline: one line
  terminator is consumed and no event is emitted.
\<close>

theorem capture_blank_line_counterexample:
  "length (pushed (trace (writes id [[CHR 0x0A]] (new_job None))))
     \<noteq> count_list (concat [[CHR 0x0A]]) (CHR 0x0A)"
  by (simp add: writes_def wrapper_write_def write_loop.simps new_job_def strip_def isspace_def
                q_put_def)

text \<open>
  C7. A second \<open>flush\<close> directly after a \<open>flush\<close> changes nothing: it pushes no event and
  leaves the buffer as it is.
\<close>

theorem flush_twice: "flush conv (flush conv st) = flush conv st"
  by (simp add: flush_def strip_def q_put_def)

section \<open>Properties of the worker\<close>

lemma is_log_log_item [simp]: "is_log (Put (log_item conv l))"
  by (simp add: log_item_def)

lemma only_logs_append: "only_logs (xs @ ys) \<longleftrightarrow> only_logs xs \<and> only_logs ys"
  by (simp add: only_logs_def)

lemma only_logs_pushed: "only_logs ls \<Longrightarrow> e \<in> set (pushed ls) \<Longrightarrow> \<exists>x. e = Log_html x"
proof (induction ls rule: pushed.induct)
  case 1
  then show ?case by simp
next
  case (2 e' as)
  then show ?case by (cases e') (auto simp: only_logs_def)
next
  case (3 as)
  then show ?case by (simp add: only_logs_def)
qed

lemma extends_by_logs_refl: "extends_by_logs st st"
  by (simp add: extends_by_logs_def only_logs_def)

lemma extends_by_logs_trans:
  "extends_by_logs a b \<Longrightarrow> extends_by_logs b c \<Longrightarrow> extends_by_logs a c"
  by (auto simp: extends_by_logs_def only_logs_append)

lemma flush_extends: "extends_by_logs st (flush conv st)"
  by (simp add: extends_by_logs_def flush_def q_put_def only_logs_def)

lemma wrapper_write_extends: "extends_by_logs st (wrapper_write conv s st)"
  by (simp add: extends_by_logs_def wrapper_write_spec only_logs_def list_all_iff)

lemma file_op_extends: "extends_by_logs st (file_op conv op st)"
  by (cases op) (simp_all add: file_op_def flush_extends wrapper_write_extends extends_by_logs_refl)

lemma run_output_extends: "extends_by_logs st (run_output conv ops st)"
proof (induction ops arbitrary: st)
  case Nil
  show ?case by (simp add: run_output_def extends_by_logs_refl)
next
  case (Cons op ops)
  have "run_output conv (op # ops) st = run_output conv ops (file_op conv op st)"
    by (simp add: run_output_def)
  with Cons[of "file_op conv op st"] file_op_extends[of st conv op] show ?case
    by (auto intro: extends_by_logs_trans)
qed

lemma finally_trace: "trace (rag_worker_finally st) = trace st @ [Set_signal, Put Finished]"
  by (simp add: rag_worker_finally_def q_put_def finish_event_set_def Let_def)

lemma finally_console:
  "console (rag_worker_finally st) =
     (if original_q_a_console_file st \<noteq> Py_None \<and> console st \<noteq> None
      then Some (Some (original_q_a_console_file st)) else console st)"
  by (simp add: rag_worker_finally_def q_put_def finish_event_set_def Let_def)

lemma rag_worker_no_console:
  "rag_worker conv N req q mh b None =
     (None, rag_worker_finally
              (finish_event_set (q_put (Error ''Internal error: q_a.console not found.'')
                                       (new_job None))))"
  by (simp add: rag_worker_def rag_worker_try_def new_job_def)

lemma rag_worker_constructor_raises:
  assumes "N req mh b = (out1, Inl (Exception_derived e))"
  shows "rag_worker conv N req q mh b (Some f) =
     (None, rag_worker_finally
              (rag_worker_except conv e (run_output conv out1 (redirected f))))"
  using assms
  by (cases f) (simp_all add: rag_worker_def rag_worker_try_def new_job_def redirected_def)

lemma rag_worker_constructor_exits:
  assumes "N req mh b = (out1, Inl (Base_exception_only e))"
  shows "rag_worker conv N req q mh b (Some f) =
     (Some (Base_exception_only e), rag_worker_finally (run_output conv out1 (redirected f)))"
  using assms
  by (cases f) (simp_all add: rag_worker_def rag_worker_try_def new_job_def redirected_def)

lemma rag_worker_answer_raises:
  assumes "N req mh b = (out1, Inr rs)" and "rs q = (out2, Inl (Exception_derived e))"
  shows "rag_worker conv N req q mh b (Some f) =
     (None, rag_worker_finally
              (rag_worker_except conv e
                 (run_output conv out2 (run_output conv out1 (redirected f)))))"
  using assms
  by (cases f) (simp_all add: rag_worker_def rag_worker_try_def new_job_def redirected_def)

lemma rag_worker_answer_exits:
  assumes "N req mh b = (out1, Inr rs)" and "rs q = (out2, Inl (Base_exception_only e))"
  shows "rag_worker conv N req q mh b (Some f) =
     (Some (Base_exception_only e),
      rag_worker_finally (run_output conv out2 (run_output conv out1 (redirected f))))"
  using assms
  by (cases f) (simp_all add: rag_worker_def rag_worker_try_def new_job_def redirected_def)

lemma rag_worker_answer_returns:
  assumes "N req mh b = (out1, Inr rs)" and "rs q = (out2, Inr a)"
  shows "rag_worker conv N req q mh b (Some f) =
     (None, rag_worker_finally
              (q_put (Answer a)
                 (flush conv (run_output conv out2 (run_output conv out1 (redirected f))))))"
  using assms
  by (cases f) (simp_all add: rag_worker_def rag_worker_try_def new_job_def redirected_def)

lemma redirected_fields:
  "trace (redirected f) = []"
  "buffer (redirected f) = []"
  "console (redirected f) = Some (Some Sse_wrapper)"
  "original_q_a_console_file (redirected f) = (case f of None \<Rightarrow> Py_None | Some x \<Rightarrow> x)"
  by (simp_all add: redirected_def)

lemma engine_extends:
  "extends_by_logs (redirected f) (run_output conv out2 (run_output conv out1 (redirected f)))"
  "extends_by_logs (redirected f) (run_output conv out1 (redirected f))"
  by (blast intro: extends_by_logs_trans run_output_extends)+

lemma pushed_only_logs_no_finished: "only_logs ls \<Longrightarrow> Finished \<notin> set (pushed ls)"
  using only_logs_pushed by blast

lemma count_list_append: "count_list (xs @ ys) x = count_list xs x + count_list ys x"
  by (induction xs) auto

text \<open>
  The states in which the \<open>finally\<close> block can be entered when there is a console: the
  file is bound to the wrapper, the original is the one saved, and \<open>finished\<close> has not
  been pushed.
\<close>

lemma engine_state:
  assumes "extends_by_logs (redirected f) s"
  shows "Finished \<notin> set (pushed (trace s)) \<and> console s = Some (Some Sse_wrapper)
         \<and> original_q_a_console_file s = (case f of None \<Rightarrow> Py_None | Some x \<Rightarrow> x)"
  using assms pushed_only_logs_no_finished
  by (auto simp: extends_by_logs_def redirected_fields)

lemma engine_state_except:
  assumes "extends_by_logs (redirected f) s"
  shows "Finished \<notin> set (pushed (trace (rag_worker_except conv e s)))
         \<and> console (rag_worker_except conv e s) = Some (Some Sse_wrapper)
         \<and> original_q_a_console_file (rag_worker_except conv e s)
             = (case f of None \<Rightarrow> Py_None | Some x \<Rightarrow> x)"
  using engine_state[OF extends_by_logs_trans[OF assms flush_extends[of s conv]]]
  by (simp add: rag_worker_except_def q_put_def pushed_append)

lemma engine_state_answer:
  assumes "extends_by_logs (redirected f) s"
  shows "Finished \<notin> set (pushed (trace (q_put (Answer a) (flush conv s))))
         \<and> console (q_put (Answer a) (flush conv s)) = Some (Some Sse_wrapper)
         \<and> original_q_a_console_file (q_put (Answer a) (flush conv s))
             = (case f of None \<Rightarrow> Py_None | Some x \<Rightarrow> x)"
  using engine_state[OF extends_by_logs_trans[OF assms flush_extends[of s conv]]]
  by (simp add: q_put_def pushed_append)

lemma rag_worker_before_finally:
  "\<exists>x st. rag_worker conv N req q mh b (Some f) = (x, rag_worker_finally st)
      \<and> Finished \<notin> set (pushed (trace st)) \<and> console st = Some (Some Sse_wrapper)
      \<and> original_q_a_console_file st = (case f of None \<Rightarrow> Py_None | Some x \<Rightarrow> x)"
proof -
  obtain out1 r1 where N: "N req mh b = (out1, r1)" by (cases "N req mh b")
  note E1 = engine_extends(2)[of f conv out1]
  show ?thesis
  proof (cases r1)
    case (Inl x)
    show ?thesis
    proof (cases x)
      case (Exception_derived e)
      with N Inl have "N req mh b = (out1, Inl (Exception_derived e))" by simp
      from rag_worker_constructor_raises[where N=N and req=req and mh=mh and b=b
             and conv=conv and q=q and f=f, OF this] engine_state_except[OF E1, where conv=conv and e=e]
      show ?thesis by blast
    next
      case (Base_exception_only e)
      with N Inl have "N req mh b = (out1, Inl (Base_exception_only e))" by simp
      from rag_worker_constructor_exits[where N=N and req=req and mh=mh and b=b
             and conv=conv and q=q and f=f, OF this] engine_state[OF E1]
      show ?thesis by blast
    qed
  next
    case (Inr rs)
    with N have N': "N req mh b = (out1, Inr rs)" by simp
    obtain out2 r2 where R: "rs q = (out2, r2)" by (cases "rs q")
    note E2 = engine_extends(1)[of f conv out2 out1]
    show ?thesis
    proof (cases r2)
      case (Inl x)
      show ?thesis
      proof (cases x)
        case (Exception_derived e)
        with R Inl have "rs q = (out2, Inl (Exception_derived e))" by simp
        from rag_worker_answer_raises[where N=N and req=req and mh=mh and b=b and rs=rs
               and q=q and conv=conv and f=f, OF N' this] engine_state_except[OF E2, where conv=conv and e=e]
        show ?thesis by blast
      next
        case (Base_exception_only e)
        with R Inl have "rs q = (out2, Inl (Base_exception_only e))" by simp
        from rag_worker_answer_exits[where N=N and req=req and mh=mh and b=b and rs=rs
               and q=q and conv=conv and f=f, OF N' this] engine_state[OF E2]
        show ?thesis by blast
      qed
    next
      case (Inr a)
      with R have "rs q = (out2, Inr a)" by simp
      from rag_worker_answer_returns[where N=N and req=req and mh=mh and b=b and rs=rs
             and q=q and conv=conv and f=f, OF N' this] engine_state_answer[OF E2, where conv=conv and a=a]
      show ?thesis by blast
    qed
  qed
qed



lemma run_output_append:
  "run_output conv out2 (run_output conv out1 st) = run_output conv (out1 @ out2) st"
  by (simp add: run_output_def)

lemma run_output_writes:
  "console st = Some (Some Sse_wrapper) \<Longrightarrow> run_output conv (map Write ws) st = writes conv ws st"
proof (induction ws arbitrary: st)
  case Nil
  show ?case by (simp add: run_output_def writes_def)
next
  case (Cons w ws)
  have c: "console (wrapper_write conv w st) = Some (Some Sse_wrapper)"
    using Cons.prems by (simp add: wrapper_write_spec)
  have "run_output conv (map Write (w # ws)) st
        = run_output conv (map Write ws) (wrapper_write conv w st)"
    using Cons.prems by (simp add: run_output_def file_op_def)
  also have "\<dots> = writes conv ws (wrapper_write conv w st)"
    by (rule Cons.IH[OF c])
  also have "\<dots> = writes conv (w # ws) st"
    by (simp add: writes_def)
  finally show ?case .
qed

lemma flush_trace:
  "trace (flush conv st)
     = trace st @ (if strip (buffer st) \<noteq> [] then [Put (log_item conv (buffer st))] else [])"
  by (simp add: flush_def q_put_def)

lemma flush_buffer:
  "buffer (flush conv st) = (if strip (buffer st) \<noteq> [] then [] else buffer st)"
  by (simp add: flush_def q_put_def)

lemma finally_buffer: "buffer (rag_worker_finally st) = buffer st"
  by (simp add: rag_worker_finally_def q_put_def finish_event_set_def Let_def)

text \<open>
  C3. When the constructor and \<open>answer_question\<close> return, the worker lets no exception
  out, and its trace is, in this order: the log events the capture pushed while the engine
  ran; one more log event for what the engine left in the buffer, pushed by the worker's
  flush exactly when that remainder is non-blank, after which the buffer is empty; the
  answer event with the returned text; the signal; \<open>finished\<close>. When the engine only
  writes, the log events are the non-blank complete lines of the text written followed by
  its non-blank remainder.
\<close>

theorem rag_worker_success_sequence:
  assumes "N req mh b = (out1, Inr rs)" and "rs q = (out2, Inr a)"
  shows "fst (rag_worker conv N req q mh b (Some f)) = None
     \<and> trace (snd (rag_worker conv N req q mh b (Some f)))
         = trace (flush conv (run_output conv out2 (run_output conv out1 (redirected f))))
           @ [Put (Answer a), Set_signal, Put Finished]
     \<and> only_logs (trace (flush conv (run_output conv out2 (run_output conv out1 (redirected f)))))
     \<and> (\<exists>logs. pushed (trace (snd (rag_worker conv N req q mh b (Some f))))
                  = logs @ [Answer a, Finished]
               \<and> (\<forall>e \<in> set logs. \<exists>x. e = Log_html x))
     \<and> trace (snd (rag_worker conv N req q mh b (Some f)))
         = trace (run_output conv out2 (run_output conv out1 (redirected f)))
           @ (if strip (buffer (run_output conv out2 (run_output conv out1 (redirected f)))) \<noteq> []
              then [Put (log_item conv
                           (buffer (run_output conv out2 (run_output conv out1 (redirected f)))))]
              else [])
           @ [Put (Answer a), Set_signal, Put Finished]
     \<and> only_logs (trace (run_output conv out2 (run_output conv out1 (redirected f))))
     \<and> buffer (snd (rag_worker conv N req q mh b (Some f)))
         = (if strip (buffer (run_output conv out2 (run_output conv out1 (redirected f)))) \<noteq> []
            then []
            else buffer (run_output conv out2 (run_output conv out1 (redirected f))))
     \<and> (\<forall>ws. out1 @ out2 = map Write ws \<longrightarrow>
           pushed (trace (snd (rag_worker conv N req q mh b (Some f))))
             = map (log_item conv) (filter nonblank (complete_lines (concat ws)))
               @ (if nonblank (remainder (concat ws)) then [log_item conv (remainder (concat ws))]
                  else [])
               @ [Answer a, Finished])"
proof -
  let ?e = "run_output conv out2 (run_output conv out1 (redirected f))"
  let ?s = "flush conv ?e"
  let ?r = "rag_worker conv N req q mh b (Some f)"
  have W: "?r = (None, rag_worker_finally (q_put (Answer a) ?s))"
    using assms by (rule rag_worker_answer_returns)
  have LE: "only_logs (trace ?e)"
    using engine_extends(1)[of f conv out2 out1]
    by (auto simp: extends_by_logs_def redirected_fields)
  have L: "only_logs (trace ?s)"
    using LE by (simp add: flush_trace only_logs_append only_logs_def)
  have T: "trace (snd ?r) = trace ?s @ [Put (Answer a), Set_signal, Put Finished]"
    by (simp add: W finally_trace q_put_def)
  have T': "trace (snd ?r)
      = trace ?e @ (if strip (buffer ?e) \<noteq> [] then [Put (log_item conv (buffer ?e))] else [])
        @ [Put (Answer a), Set_signal, Put Finished]"
    unfolding T flush_trace by simp
  have B: "buffer (snd ?r) = (if strip (buffer ?e) \<noteq> [] then [] else buffer ?e)"
    by (simp add: W finally_buffer q_put_def flush_buffer)
  have "pushed (trace (snd ?r)) = pushed (trace ?s) @ [Answer a, Finished]
        \<and> (\<forall>e \<in> set (pushed (trace ?s)). \<exists>x. e = Log_html x)"
    using only_logs_pushed[OF L] by (simp add: T pushed_append)
  then have P: "\<exists>logs. pushed (trace (snd ?r)) = logs @ [Answer a, Finished]
               \<and> (\<forall>e \<in> set logs. \<exists>x. e = Log_html x)"
    by blast
  have V: "\<forall>ws. out1 @ out2 = map Write ws \<longrightarrow>
           pushed (trace (snd ?r))
             = map (log_item conv) (filter nonblank (complete_lines (concat ws)))
               @ (if nonblank (remainder (concat ws)) then [log_item conv (remainder (concat ws))]
                  else [])
               @ [Answer a, Finished]"
  proof (intro allI impI)
    fix ws
    assume ws: "out1 @ out2 = map Write ws"
    have "?e = writes conv ws (redirected f)"
      by (simp add: run_output_append ws run_output_writes redirected_fields)
    also have "\<dots> = (redirected f)\<lparr>buffer := remainder (concat ws),
        trace := trace (redirected f) @ map (\<lambda>l. Put (log_item conv l))
                                          (filter nonblank (complete_lines (concat ws)))\<rparr>"
      by (rule writes_spec) (simp add: redirected_fields)
    finally have e: "trace ?e = map (\<lambda>l. Put (log_item conv l))
                                   (filter nonblank (complete_lines (concat ws)))"
      and be: "buffer ?e = remainder (concat ws)"
      by (simp_all add: redirected_fields)
    show "pushed (trace (snd ?r))
             = map (log_item conv) (filter nonblank (complete_lines (concat ws)))
               @ (if nonblank (remainder (concat ws)) then [log_item conv (remainder (concat ws))]
                  else [])
               @ [Answer a, Finished]"
      unfolding T' e be by (simp add: pushed_append pushed_map_Put nonblank_def)
  qed
  have F: "fst ?r = None" by (simp add: W)
  from F T L P T' LE B V show ?thesis by blast
qed

theorem rag_worker_success_sequence_witness:
  "unterminated_engine scenario_config (PBool True) (PStr ''Deeper'')
     = ([], Inr (\<lambda>question. ([Write (''step 1'' @ [CHR 0x0A] @ ''step''), Write '' 2''],
                             Inr ''X is ...'')))
   \<and> buffer (run_output id [Write (''step 1'' @ [CHR 0x0A] @ ''step''), Write '' 2'']
               (run_output id [] (redirected (Some (Stream 0))))) = ''step 2''
   \<and> pushed (trace (snd (rag_worker id unterminated_engine scenario_config (PStr ''What is X?'')
                             (PBool True) (PStr ''Deeper'') (Some (Some (Stream 0))))))
       = [Log_html ''<div class='log-item'>step 1</div>'',
          Log_html ''<div class='log-item'>step 2</div>'', Answer ''X is ...'', Finished]
   \<and> buffer (snd (rag_worker id unterminated_engine scenario_config (PStr ''What is X?'')
                     (PBool True) (PStr ''Deeper'') (Some (Some (Stream 0))))) = []"
proof -
  let ?out = "[Write (''step 1'' @ [CHR 0x0A] @ ''step''), Write '' 2'']"
  let ?e = "run_output id ?out (run_output id [] (redirected (Some (Stream 0))))"
  let ?r = "rag_worker id unterminated_engine scenario_config (PStr ''What is X?'')
              (PBool True) (PStr ''Deeper'') (Some (Some (Stream 0)))"
  have h1: "unterminated_engine scenario_config (PBool True) (PStr ''Deeper'')
     = ([], Inr (\<lambda>question. (?out, Inr ''X is ...'')))"
    by (simp add: unterminated_engine_def)
  have h2: "(\<lambda>question. (?out, Inr ''X is ...'')) (PStr ''What is X?'') = (?out, Inr ''X is ...'')"
    by simp
  note t = rag_worker_success_sequence[where N = unterminated_engine and conv = id
      and f = "Some (Stream 0)" and q = "PStr ''What is X?''"
      and rs = "\<lambda>question. (?out, Inr ''X is ...'')", OF h1 h2]
  from t have T: "trace (snd ?r)
      = trace ?e @ (if strip (buffer ?e) \<noteq> [] then [Put (log_item id (buffer ?e))] else [])
        @ [Put (Answer ''X is ...''), Set_signal, Put Finished]"
    by blast
  from t have B: "buffer (snd ?r) = (if strip (buffer ?e) \<noteq> [] then [] else buffer ?e)"
    by blast
  have e: "?e = (redirected (Some (Stream 0)))\<lparr>buffer := ''step 2'',
           trace := [Put (Log_html ''<div class='log-item'>step 1</div>'')]\<rparr>"
    by (simp add: run_output_def file_op_def redirected_def wrapper_write_def write_loop.simps
                  q_put_def log_item_def strip_def isspace_def)
  have s: "strip ''step 2'' = ''step 2''"
    by (simp add: strip_def isspace_def)
  have be: "buffer ?e = ''step 2''" and te: "trace ?e = [Put (Log_html ''<div class='log-item'>step 1</div>'')]"
    unfolding e by simp_all
  have P: "pushed (trace (snd ?r))
       = [Log_html ''<div class='log-item'>step 1</div>'',
          Log_html ''<div class='log-item'>step 2</div>'', Answer ''X is ...'', Finished]"
    unfolding T be te by (simp add: s log_item_def)
  have B': "buffer (snd ?r) = []"
    unfolding B be by (simp add: s)
  from h1 be P B' show ?thesis by blast
qed

text \<open>
  C4, as the code has it. When the constructor or \<open>answer_question\<close> raises an exception
  derived from \<open>Exception\<close>, with message \<open>e\<close>, the worker lets no exception out, and its
  trace is: log events; then one error event whose content is \<open>An error occurred:\<close>
  followed by the message; then the signal and \<open>finished\<close>. No answer event is pushed.
\<close>

theorem rag_worker_failure_sequence:
  assumes "N req mh b = (out1, Inl (Exception_derived e))
           \<or> (N req mh b = (out1, Inr rs) \<and> rs q = (out2, Inl (Exception_derived e)))"
  shows "fst (rag_worker conv N req q mh b (Some f)) = None
     \<and> (\<exists>ls. only_logs ls
            \<and> trace (snd (rag_worker conv N req q mh b (Some f)))
                = ls @ [Put (Error (''An error occurred: '' @ e)), Set_signal, Put Finished])
     \<and> (\<exists>logs. pushed (trace (snd (rag_worker conv N req q mh b (Some f))))
                  = logs @ [Error (''An error occurred: '' @ e), Finished]
               \<and> (\<forall>ev \<in> set logs. \<exists>x. ev = Log_html x))
     \<and> (\<forall>a. Answer a \<notin> set (pushed (trace (snd (rag_worker conv N req q mh b (Some f))))))"
proof -
  have "\<exists>s. rag_worker conv N req q mh b (Some f)
               = (None, rag_worker_finally (rag_worker_except conv e s))
           \<and> only_logs (trace (flush conv s))"
  proof (rule disjE[OF assms])
    assume c: "N req mh b = (out1, Inl (Exception_derived e))"
    have "only_logs (trace (flush conv (run_output conv out1 (redirected f))))"
      using extends_by_logs_trans[OF engine_extends(2)[of f conv out1] flush_extends]
      by (auto simp: extends_by_logs_def redirected_fields)
    with rag_worker_constructor_raises[where N=N and req=req and mh=mh and b=b, OF c]
    show ?thesis by blast
  next
    assume "N req mh b = (out1, Inr rs) \<and> rs q = (out2, Inl (Exception_derived e))"
    then have c: "N req mh b = (out1, Inr rs)" and r: "rs q = (out2, Inl (Exception_derived e))"
      by simp_all
    have "only_logs (trace (flush conv (run_output conv out2 (run_output conv out1 (redirected f)))))"
      using extends_by_logs_trans[OF engine_extends(1)[of f conv out2 out1] flush_extends]
      by (auto simp: extends_by_logs_def redirected_fields)
    with rag_worker_answer_raises[where N=N and req=req and mh=mh and b=b and rs=rs and q=q,
                                  OF c r]
    show ?thesis by blast
  qed
  then obtain s where
    W: "rag_worker conv N req q mh b (Some f) = (None, rag_worker_finally (rag_worker_except conv e s))"
    and L: "only_logs (trace (flush conv s))" by blast
  let ?r = "rag_worker conv N req q mh b (Some f)"
  have T: "trace (snd ?r)
      = trace (flush conv s) @ [Put (Error (''An error occurred: '' @ e)), Set_signal, Put Finished]"
    by (simp add: W finally_trace rag_worker_except_def q_put_def)
  have P: "pushed (trace (snd ?r))
      = pushed (trace (flush conv s)) @ [Error (''An error occurred: '' @ e), Finished]"
    by (simp add: T pushed_append)
  have logs: "\<forall>ev \<in> set (pushed (trace (flush conv s))). \<exists>x. ev = Log_html x"
    using only_logs_pushed[OF L] by blast
  have c1: "fst ?r = None" by (simp add: W)
  have c2: "\<exists>ls. only_logs ls
      \<and> trace (snd ?r) = ls @ [Put (Error (''An error occurred: '' @ e)), Set_signal, Put Finished]"
    using L T by blast
  have c3: "\<exists>logs. pushed (trace (snd ?r)) = logs @ [Error (''An error occurred: '' @ e), Finished]
      \<and> (\<forall>ev \<in> set logs. \<exists>x. ev = Log_html x)"
    using P logs by blast
  have c4: "\<forall>a. Answer a \<notin> set (pushed (trace (snd ?r)))"
    using logs by (auto simp: P)
  from c1 c2 c3 c4 show ?thesis by blast
qed

theorem rag_worker_failure_sequence_witness:
  "(failing_engine scenario_config (PBool True) (PStr ''Deeper'')
      = ([], Inl (Exception_derived ''db unreachable''))
    \<or> (failing_engine scenario_config (PBool True) (PStr ''Deeper'')
          = ([], Inr (\<lambda>question. ([Write (''step 1'' @ [CHR 0x0A])],
                                  Inl (Exception_derived ''db unreachable''))))
        \<and> (\<lambda>question. ([Write (''step 1'' @ [CHR 0x0A])],
                          Inl (Exception_derived ''db unreachable''))) (PStr ''What is X?'')
          = ([Write (''step 1'' @ [CHR 0x0A])], Inl (Exception_derived ''db unreachable''))))
   \<and> fst (scenario_job failing_engine (Some (Some (Stream 0)))) = None
   \<and> (\<forall>a. Answer a \<notin> set (pushed (trace (snd (scenario_job failing_engine (Some (Some (Stream 0))))))))
   \<and> pushed (trace (snd (scenario_job failing_engine (Some (Some (Stream 0))))))
       = [Log_html ''<div class='log-item'>step 1</div>'',
          Error ''An error occurred: db unreachable'', Finished]"
proof -
  have h: "failing_engine scenario_config (PBool True) (PStr ''Deeper'')
      = ([], Inl (Exception_derived ''db unreachable''))
    \<or> (failing_engine scenario_config (PBool True) (PStr ''Deeper'')
          = ([], Inr (\<lambda>question. ([Write (''step 1'' @ [CHR 0x0A])],
                                  Inl (Exception_derived ''db unreachable''))))
        \<and> (\<lambda>question. ([Write (''step 1'' @ [CHR 0x0A])],
                          Inl (Exception_derived ''db unreachable''))) (PStr ''What is X?'')
          = ([Write (''step 1'' @ [CHR 0x0A])], Inl (Exception_derived ''db unreachable'')))"
    by (simp add: failing_engine_def)
  note t = rag_worker_failure_sequence[where N = failing_engine and conv = "\<lambda>x. x"
      and f = "Some (Stream 0)", OF h]
  have ev: "pushed (trace (snd (scenario_job failing_engine (Some (Some (Stream 0))))))
       = [Log_html ''<div class='log-item'>step 1</div>'',
          Error ''An error occurred: db unreachable'', Finished]"
    by (simp add: scenario_job_def failing_engine_def rag_worker_def rag_worker_try_def
                  rag_worker_except_def rag_worker_finally_def new_job_def
                  run_output_def file_op_def wrapper_write_def write_loop.simps
                  flush_def q_put_def finish_event_set_def log_item_def strip_def isspace_def)
  from t h ev show ?thesis
    by (simp only: scenario_job_def) simp
qed

text \<open>
  C4 as the claim states it, for any exception, fails when what the engine raises derives
  from \<open>BaseException\<close> only: for an engine that calls \<open>sys.exit("fatal")\<close> after one
  line of progress, \<open>SystemExit\<close> leaves the worker and no error event is pushed.
\<close>

theorem rag_worker_system_exit_counterexample:
  "fst (scenario_job exiting_engine (Some (Some (Stream 0)))) = Some (Base_exception_only ''fatal'')
   \<and> pushed (trace (snd (scenario_job exiting_engine (Some (Some (Stream 0))))))
       = [Log_html ''<div class='log-item'>step 1</div>'', Finished]"
  by (simp add: scenario_job_def exiting_engine_def rag_worker_def rag_worker_try_def
                rag_worker_finally_def new_job_def
                run_output_def file_op_def wrapper_write_def write_loop.simps
                q_put_def finish_event_set_def log_item_def strip_def isspace_def)

text \<open>
  The console's file after the worker, for every engine: the saved original when there
  was a file other than \<open>None\<close> to save, the wrapper when the console had no file or the
  file \<open>None\<close>, and no console when there was none.
\<close>

lemma rag_worker_console:
  "console (snd (rag_worker conv N req q mh b c)) =
     (case c of
        None \<Rightarrow> None
      | Some None \<Rightarrow> Some (Some Sse_wrapper)
      | Some (Some x) \<Rightarrow> if x \<noteq> Py_None then Some (Some x) else Some (Some Sse_wrapper))"
proof (cases c)
  case None
  then show ?thesis
    by (simp add: rag_worker_no_console finally_console q_put_def finish_event_set_def new_job_def)
next
  case (Some f)
  from rag_worker_before_finally[of conv N req q mh b f] obtain x st where
    "rag_worker conv N req q mh b (Some f) = (x, rag_worker_finally st)"
    "console st = Some (Some Sse_wrapper)"
    "original_q_a_console_file st = (case f of None \<Rightarrow> Py_None | Some x \<Rightarrow> x)" by blast
  with Some show ?thesis
    by (cases f) (simp_all add: finally_console)
qed

text \<open>
  C5. The console of the engine is a console of the \<open>rich\<close> library (its \<open>print\<close> is the
  one \<open>sse_log_print\<close> replaces, and the wrapper answers the \<open>isatty\<close> it asks for): its
  \<open>file\<close> is a property that always exists and never yields \<open>None\<close>. For such a console,
  and also when \<open>q_a\<close> has no console at all, the console's file after the worker is what
  it was before, whether the engine returns, raises or exits, and on the path where the
  redirection cannot be set up.
\<close>

theorem rag_worker_restores_console_file:
  assumes "c \<noteq> Some None" and "c \<noteq> Some (Some Py_None)"
  shows "console (snd (rag_worker conv N req q mh b c)) = c"
  using assms by (auto simp: rag_worker_console split: option.splits)

theorem rag_worker_restores_console_file_witness:
  "Some (Some (Stream 0)) \<noteq> Some None \<and> Some (Some (Stream 0)) \<noteq> Some (Some Py_None)
   \<and> console (snd (scenario_job scenario_engine (Some (Some (Stream 0))))) = Some (Some (Stream 0))
   \<and> console (snd (scenario_job failing_engine (Some (Some (Stream 0))))) = Some (Some (Stream 0))
   \<and> console (snd (scenario_job exiting_engine (Some (Some (Stream 0))))) = Some (Some (Stream 0))
   \<and> console (snd (scenario_job scenario_engine None)) = None"
  using rag_worker_restores_console_file[of "Some (Some (Stream 0))" "\<lambda>x. x" scenario_engine
          scenario_config "PStr ''What is X?''" "PBool True" "PStr ''Deeper''"]
        rag_worker_restores_console_file[of "Some (Some (Stream 0))" "\<lambda>x. x" failing_engine
          scenario_config "PStr ''What is X?''" "PBool True" "PStr ''Deeper''"]
        rag_worker_restores_console_file[of "Some (Some (Stream 0))" "\<lambda>x. x" exiting_engine
          scenario_config "PStr ''What is X?''" "PBool True" "PStr ''Deeper''"]
        rag_worker_restores_console_file[of None "\<lambda>x. x" scenario_engine
          scenario_config "PStr ''What is X?''" "PBool True" "PStr ''Deeper''"]
  by (simp add: scenario_job_def)

section \<open>Properties of the dispatcher loop\<close>

lemma stream_inv_start: "stream_inv (pushed w) (start w)"
  by (simp add: stream_inv_def start_def)

lemma stream_inv_worker: "stream_inv P s \<Longrightarrow> stream_inv P (step Worker_step s)"
proof (cases "pending s")
  case Nil
  assume "stream_inv P s"
  with Nil show ?thesis by simp
next
  case (Cons a as)
  assume "stream_inv P s"
  with Cons show ?thesis
    by (cases a) (auto simp: stream_inv_def)
qed

lemma stream_inv_open:
  assumes "stream_inv P s" and "pc s \<noteq> Closed"
  shows "P = yielded s @ message_queue s @ pushed (pending s)" and "Finished \<notin> set (yielded s)"
  using assms by (auto simp: stream_inv_def)

lemma stream_inv_loop: "stream_inv P s \<Longrightarrow> stream_inv P (step Loop_step s)"
proof (cases "pc s")
  case Test_signal
  assume "stream_inv P s"
  with Test_signal show ?thesis by (auto simp: stream_inv_def)
next
  case Test_empty
  assume "stream_inv P s"
  with Test_empty show ?thesis by (auto simp: stream_inv_def)
next
  case Get
  assume inv: "stream_inv P s"
  from Get have op: "pc s \<noteq> Closed" by simp
  note o = stream_inv_open[OF inv op]
  show ?thesis
  proof (cases "message_queue s")
    case Nil
    with Get inv show ?thesis by (auto simp: stream_inv_def)
  next
    case (Cons msg rest)
    have "P = (yielded s @ [msg]) @ [] @ rest @ pushed (pending s)"
      using o(1) Cons by simp
    with Get Cons o(2) show ?thesis
      unfolding stream_inv_def by (auto simp del: append_assoc)
  qed
next
  case Closed
  assume "stream_inv P s"
  with Closed show ?thesis by simp
qed

lemma stream_inv_yield_error: "stream_inv P s \<Longrightarrow> stream_inv P (step Yield_error s)"
proof (cases "pc s = Get \<and> message_queue s \<noteq> []")
  case False
  assume "stream_inv P s"
  with False show ?thesis
    by (cases "pc s"; cases "message_queue s") simp_all
next
  case True
  assume inv: "stream_inv P s"
  from True obtain msg rest where q: "message_queue s = msg # rest" by (cases "message_queue s") auto
  from True have op: "pc s \<noteq> Closed" by simp
  note o = stream_inv_open[OF inv op]
  have "P = yielded s @ [msg] @ rest @ pushed (pending s)" using o(1) q by simp
  with True q o(2) show ?thesis
    unfolding stream_inv_def by auto
qed

lemma stream_inv_close: "stream_inv P s \<Longrightarrow> stream_inv P (step Client_close s)"
  by (auto simp: stream_inv_def)

lemma stream_inv_step: "stream_inv P s \<Longrightarrow> stream_inv P (step c s)"
  by (cases c) (simp_all only: stream_inv_worker stream_inv_loop stream_inv_yield_error
                              stream_inv_close)

lemma stream_inv_run: "stream_inv P s \<Longrightarrow> stream_inv P (run schedule s)"
proof (induction schedule arbitrary: s)
  case Nil
  then show ?case by (simp add: run_def)
next
  case (Cons c cs)
  have "run (c # cs) s = run cs (step c s)" by (simp add: run_def)
  with Cons.IH[OF stream_inv_step[OF Cons.prems]] show ?case by simp
qed

lemma step_closed: "pc s = Closed \<Longrightarrow> yielded (step c s) = yielded s"
  by (cases c) (auto split: list.splits action.splits)

lemma step_yields_one:
  "yielded (step c s) = yielded s
   \<or> (\<exists>msg rest. message_queue s = msg # rest \<and> message_queue (step c s) = rest
         \<and> yielded (step c s) = yielded s @ [msg])"
  by (cases c) (auto split: list.splits action.splits loop_pc.splits)

lemma loop_step_pop:
  "message_queue (step Loop_step s) \<noteq> message_queue s \<Longrightarrow>
   \<exists>msg rest. message_queue s = msg # rest \<and> message_queue (step Loop_step s) = rest
       \<and> yielded (step Loop_step s) = yielded s @ [msg]"
  by (auto split: list.splits loop_pc.splits if_splits)

text \<open>
  C8. In every state the worker thread and the loop can reach together, whatever the
  worker does and however the two are scheduled: the messages yielded to the client are a
  prefix of the events pushed, in their order; once \<open>finished\<close> has been yielded it is the
  last message, it has been yielded once, and the loop has been left; a loop that has been
  left yields nothing more; a step yields at most one message, the head of the queue, in
  the very step that takes it from the queue; and the loop takes nothing from the queue
  without yielding it.
\<close>

theorem dispatcher_forwards_in_order:
  "prefix (yielded (run schedule (start w))) (pushed w)
   \<and> (Finished \<in> set (yielded (run schedule (start w))) \<longrightarrow>
        pc (run schedule (start w)) = Closed
        \<and> last (yielded (run schedule (start w))) = Finished
        \<and> count_list (yielded (run schedule (start w))) Finished = 1)
   \<and> (pc (run schedule (start w)) = Closed \<longrightarrow>
        yielded (step c (run schedule (start w))) = yielded (run schedule (start w)))
   \<and> (yielded (step c (run schedule (start w))) = yielded (run schedule (start w))
        \<or> (\<exists>msg rest. message_queue (run schedule (start w)) = msg # rest
              \<and> message_queue (step c (run schedule (start w))) = rest
              \<and> yielded (step c (run schedule (start w)))
                  = yielded (run schedule (start w)) @ [msg]))
   \<and> (message_queue (step Loop_step (run schedule (start w)))
          \<noteq> message_queue (run schedule (start w)) \<longrightarrow>
        (\<exists>msg rest. message_queue (run schedule (start w)) = msg # rest
              \<and> yielded (step Loop_step (run schedule (start w)))
                  = yielded (run schedule (start w)) @ [msg]))"
proof -
  let ?s = "run schedule (start w)"
  have inv: "stream_inv (pushed w) ?s"
    by (rule stream_inv_run[OF stream_inv_start])
  have a: "prefix (yielded ?s) (pushed w)"
    using inv by (auto simp: stream_inv_def prefix_def)
  have b: "Finished \<in> set (yielded ?s) \<longrightarrow>
        pc ?s = Closed \<and> last (yielded ?s) = Finished \<and> count_list (yielded ?s) Finished = 1"
  proof
    assume "Finished \<in> set (yielded ?s)"
    with inv obtain ys where "pc ?s = Closed" "yielded ?s = ys @ [Finished]" "Finished \<notin> set ys"
      by (auto simp: stream_inv_def)
    then show "pc ?s = Closed \<and> last (yielded ?s) = Finished \<and> count_list (yielded ?s) Finished = 1"
      by (simp add: count_list_append count_list_0_iff)
  qed
  have c: "pc ?s = Closed \<longrightarrow> yielded (step c ?s) = yielded ?s"
    by (simp add: step_closed)
  have e: "message_queue (step Loop_step ?s) \<noteq> message_queue ?s \<longrightarrow>
        (\<exists>msg rest. message_queue ?s = msg # rest
              \<and> yielded (step Loop_step ?s) = yielded ?s @ [msg])"
    using loop_step_pop[of ?s] by blast
  from a b c step_yields_one[of c ?s] e show ?thesis by blast
qed

theorem dispatcher_forwards_in_order_witness:
  "Finished \<in> set (yielded (run [Worker_step, Worker_step, Worker_step, Loop_step, Loop_step,
        Loop_step, Loop_step, Loop_step, Loop_step] (start [Put (Answer ''X is ...''), Set_signal,
        Put Finished])))
   \<and> pc (run [Worker_step, Worker_step, Worker_step, Loop_step, Loop_step,
        Loop_step, Loop_step, Loop_step, Loop_step] (start [Put (Answer ''X is ...''), Set_signal,
        Put Finished])) = Closed
   \<and> yielded (run [Worker_step, Worker_step, Worker_step, Loop_step, Loop_step,
        Loop_step, Loop_step, Loop_step, Loop_step] (start [Put (Answer ''X is ...''), Set_signal,
        Put Finished])) = [Answer ''X is ...'', Finished]
   \<and> message_queue (step Loop_step (run [Worker_step, Loop_step]
        (start [Put (Answer ''X is ...''), Set_signal, Put Finished])))
       \<noteq> message_queue (run [Worker_step, Loop_step]
        (start [Put (Answer ''X is ...''), Set_signal, Put Finished]))
   \<and> prefix (yielded (run [Worker_step, Worker_step, Worker_step, Loop_step, Loop_step,
        Loop_step, Loop_step, Loop_step, Loop_step] (start [Put (Answer ''X is ...''), Set_signal,
        Put Finished]))) (pushed [Put (Answer ''X is ...''), Set_signal, Put Finished])"
  using dispatcher_forwards_in_order[of "[Worker_step, Worker_step, Worker_step, Loop_step,
        Loop_step, Loop_step, Loop_step, Loop_step, Loop_step]"
        "[Put (Answer ''X is ...''), Set_signal, Put Finished]" Loop_step]
  by (simp add: run_def start_def)

text \<open>
  C2 fails on the code. In the first scenario the worker's trace sets the signal before
  it pushes \<open>finished\<close>. So there is a moment at which the signal is set and \<open>finished\<close>
  is not in the queue; a loop that has forwarded everything so far and tests the signal and
  the queue at that moment leaves, and the client never receives \<open>finished\<close>.
\<close>

theorem signal_set_before_finished_pushed:
  "trace (snd (scenario_job scenario_engine (Some (Some (Stream 0)))))
     = [Put (Log_html ''<div class='log-item'>step 1</div>''),
        Put (Log_html ''<div class='log-item'>step 2</div>''),
        Put (Answer ''X is ...''), Set_signal, Put Finished]
   \<and> is_set (take 4 (trace (snd (scenario_job scenario_engine (Some (Some (Stream 0)))))))
   \<and> Finished \<notin> set (pushed (take 4 (trace (snd (scenario_job scenario_engine
                                                      (Some (Some (Stream 0))))))))
   \<and> finished_signal (run [Worker_step, Worker_step, Worker_step, Loop_step, Loop_step,
          Loop_step, Loop_step, Loop_step, Loop_step, Worker_step]
          (start (trace (snd (scenario_job scenario_engine (Some (Some (Stream 0))))))))
   \<and> message_queue (run [Worker_step, Worker_step, Worker_step, Loop_step, Loop_step,
          Loop_step, Loop_step, Loop_step, Loop_step, Worker_step]
          (start (trace (snd (scenario_job scenario_engine (Some (Some (Stream 0)))))))) = []
   \<and> pc (run [Worker_step, Worker_step, Worker_step, Loop_step, Loop_step,
          Loop_step, Loop_step, Loop_step, Loop_step, Worker_step, Loop_step, Loop_step, Worker_step]
          (start (trace (snd (scenario_job scenario_engine (Some (Some (Stream 0)))))))) = Closed
   \<and> yielded (run [Worker_step, Worker_step, Worker_step, Loop_step, Loop_step,
          Loop_step, Loop_step, Loop_step, Loop_step, Worker_step, Loop_step, Loop_step, Worker_step]
          (start (trace (snd (scenario_job scenario_engine (Some (Some (Stream 0))))))))
       = [Log_html ''<div class='log-item'>step 1</div>'',
          Log_html ''<div class='log-item'>step 2</div>'', Answer ''X is ...'']
   \<and> message_queue (run [Worker_step, Worker_step, Worker_step, Loop_step, Loop_step,
          Loop_step, Loop_step, Loop_step, Loop_step, Worker_step, Loop_step, Loop_step, Worker_step]
          (start (trace (snd (scenario_job scenario_engine (Some (Some (Stream 0))))))))
       = [Finished]"
proof -
  have T: "trace (snd (scenario_job scenario_engine (Some (Some (Stream 0)))))
     = [Put (Log_html ''<div class='log-item'>step 1</div>''),
        Put (Log_html ''<div class='log-item'>step 2</div>''),
        Put (Answer ''X is ...''), Set_signal, Put Finished]"
    by (simp add: scenario_job_def scenario_engine_def rag_worker_def rag_worker_try_def
                  rag_worker_finally_def new_job_def
                  run_output_def file_op_def wrapper_write_def write_loop.simps
                  flush_def q_put_def finish_event_set_def log_item_def strip_def isspace_def)
  show ?thesis
    unfolding T by (simp add: run_def start_def is_set_def)
qed


section \<open>Properties of the request handlers\<close>

lemma ask_question_unauthenticated:
  "sess ''neo4j_config'' = None \<or> \<not> truthy (dict_get sess ''neo4j_connected'' PNone) \<Longrightarrow>
   ask_question sess body = Response 403 ''Not connected to Neo4j. Please login.''"
  unfolding ask_question_def by simp

lemma ask_question_object:
  assumes "sess ''neo4j_config'' \<noteq> None" and "truthy (dict_get sess ''neo4j_connected'' PNone)"
  shows "ask_question sess (PDict kvs) =
     (if \<not> truthy (case map_of kvs ''question'' of None \<Rightarrow> PNone | Some v \<Rightarrow> v)
      then Response 400 ''No question provided.''
      else Event_stream (case map_of kvs ''question'' of None \<Rightarrow> PNone | Some v \<Rightarrow> v)
             (case map_of kvs ''enable_multi_hop'' of None \<Rightarrow> PBool True | Some v \<Rightarrow> v)
             (case map_of kvs ''search_budget'' of None \<Rightarrow> PStr ''Deeper'' | Some v \<Rightarrow> v))"
  using assms unfolding ask_question_def by simp

lemma ask_question_not_object:
  assumes "sess ''neo4j_config'' \<noteq> None" and "truthy (dict_get sess ''neo4j_connected'' PNone)"
    and "\<And>kvs. body \<noteq> PDict kvs"
  shows "ask_question sess body = Response 500 ''Internal Server Error''"
proof (cases body)
  case (PDict kvs)
  with assms(3)[of kvs] show ?thesis by simp
qed (use assms(1,2) in \<open>simp_all add: ask_question_def\<close>)

lemma ask_question_stream:
  assumes "ask_question sess body = Event_stream q m b"
  shows "\<exists>kvs. body = PDict kvs \<and> map_of kvs ''question'' = Some q \<and> truthy q
        \<and> (map_of kvs ''enable_multi_hop'' = None \<longrightarrow> m = PBool True)
        \<and> (map_of kvs ''search_budget'' = None \<longrightarrow> b = PStr ''Deeper'')"
proof -
  have "\<not> (sess ''neo4j_config'' = None \<or> \<not> truthy (dict_get sess ''neo4j_connected'' PNone))"
  proof
    assume "sess ''neo4j_config'' = None \<or> \<not> truthy (dict_get sess ''neo4j_connected'' PNone)"
    from ask_question_unauthenticated[OF this, of body] assms show False by simp
  qed
  then have auth: "sess ''neo4j_config'' \<noteq> None" "truthy (dict_get sess ''neo4j_connected'' PNone)"
    by simp_all
  have "\<exists>kvs. body = PDict kvs"
  proof (rule ccontr)
    assume "\<not> (\<exists>kvs. body = PDict kvs)"
    then have "\<And>kvs. body \<noteq> PDict kvs" by blast
    from ask_question_not_object[OF auth this] assms show False by simp
  qed
  then obtain kvs where body: "body = PDict kvs" by blast
  note o = ask_question_object[OF auth, of kvs]
  from assms body o have t: "truthy (case map_of kvs ''question'' of None \<Rightarrow> PNone | Some v \<Rightarrow> v)"
    by (auto split: if_splits)
  with assms body o have
    q: "q = (case map_of kvs ''question'' of None \<Rightarrow> PNone | Some v \<Rightarrow> v)"
    and m: "m = (case map_of kvs ''enable_multi_hop'' of None \<Rightarrow> PBool True | Some v \<Rightarrow> v)"
    and b: "b = (case map_of kvs ''search_budget'' of None \<Rightarrow> PStr ''Deeper'' | Some v \<Rightarrow> v)"
    by simp_all
  from t q have "map_of kvs ''question'' = Some q \<and> truthy q"
    by (cases "map_of kvs ''question''") simp_all
  with body m b show ?thesis by simp
qed

text \<open>
  C9, as the code has it. A request whose session has no graph-database configuration or
  no true \<open>neo4j_connected\<close> entry, whatever its body, and a request whose body is a JSON
  object with no \<open>question\<close> or an empty one, is answered at once with a status between
  400 and 499, not with an event stream, so no worker is started. A request that is
  answered with an event stream has an object as its body, carries a question that is
  present and true, and a parameter absent from the body has its default: \<open>True\<close> for
  \<open>enable_multi_hop\<close>, \<open>Deeper\<close> for \<open>search_budget\<close>.
\<close>

theorem ask_question_rejects_before_streaming:
  "((sess ''neo4j_config'' = None \<or> \<not> truthy (dict_get sess ''neo4j_connected'' PNone)
      \<or> (body = PDict kvs
          \<and> (map_of kvs ''question'' = None \<or> map_of kvs ''question'' = Some (PStr [])))) \<longrightarrow>
     (\<exists>status msg. ask_question sess body = Response status msg
         \<and> 400 \<le> status \<and> status < 500))
   \<and> (ask_question sess body = Event_stream q m b \<longrightarrow>
        (\<exists>kvs'. body = PDict kvs' \<and> map_of kvs' ''question'' = Some q \<and> truthy q
           \<and> (map_of kvs' ''enable_multi_hop'' = None \<longrightarrow> m = PBool True)
           \<and> (map_of kvs' ''search_budget'' = None \<longrightarrow> b = PStr ''Deeper'')))
   \<and> (sess ''neo4j_config'' \<noteq> None \<and> truthy (dict_get sess ''neo4j_connected'' PNone)
        \<and> body = PDict kvs \<and> map_of kvs ''question'' = Some q' \<and> truthy q'
        \<and> map_of kvs ''enable_multi_hop'' = None \<and> map_of kvs ''search_budget'' = None \<longrightarrow>
        ask_question sess body = Event_stream q' (PBool True) (PStr ''Deeper''))"
proof (intro conjI impI)
  assume h: "sess ''neo4j_config'' = None \<or> \<not> truthy (dict_get sess ''neo4j_connected'' PNone)
      \<or> (body = PDict kvs
          \<and> (map_of kvs ''question'' = None \<or> map_of kvs ''question'' = Some (PStr [])))"
  show "\<exists>status msg. ask_question sess body = Response status msg \<and> 400 \<le> status \<and> status < 500"
  proof (cases "sess ''neo4j_config'' = None \<or> \<not> truthy (dict_get sess ''neo4j_connected'' PNone)")
    case True
    from ask_question_unauthenticated[OF True, of body] show ?thesis by simp
  next
    case False
    then have auth: "sess ''neo4j_config'' \<noteq> None" "truthy (dict_get sess ''neo4j_connected'' PNone)"
      by simp_all
    from h False have body: "body = PDict kvs"
      and q: "map_of kvs ''question'' = None \<or> map_of kvs ''question'' = Some (PStr [])"
      by auto
    from q have "\<not> truthy (case map_of kvs ''question'' of None \<Rightarrow> PNone | Some v \<Rightarrow> v)"
      by auto
    with ask_question_object[OF auth, of kvs] body
    have "ask_question sess body = Response 400 ''No question provided.''" by simp
    then show ?thesis by simp
  qed
next
  assume "ask_question sess body = Event_stream q m b"
  then show "\<exists>kvs'. body = PDict kvs' \<and> map_of kvs' ''question'' = Some q \<and> truthy q
           \<and> (map_of kvs' ''enable_multi_hop'' = None \<longrightarrow> m = PBool True)
           \<and> (map_of kvs' ''search_budget'' = None \<longrightarrow> b = PStr ''Deeper'')"
    by (rule ask_question_stream)
next
  assume h: "sess ''neo4j_config'' \<noteq> None \<and> truthy (dict_get sess ''neo4j_connected'' PNone)
        \<and> body = PDict kvs \<and> map_of kvs ''question'' = Some q' \<and> truthy q'
        \<and> map_of kvs ''enable_multi_hop'' = None \<and> map_of kvs ''search_budget'' = None"
  then have auth: "sess ''neo4j_config'' \<noteq> None" "truthy (dict_get sess ''neo4j_connected'' PNone)"
    by simp_all
  from h ask_question_object[OF auth, of kvs]
  show "ask_question sess body = Event_stream q' (PBool True) (PStr ''Deeper'')" by simp
qed

theorem ask_question_rejects_before_streaming_witness:
  "map_of [(''question'', PStr [])] ''question'' = Some (PStr [])
   \<and> (\<exists>status msg. ask_question [''neo4j_config'' \<mapsto> PDict [], ''neo4j_connected'' \<mapsto> PBool True]
                       (PDict [(''question'', PStr [])]) = Response status msg
          \<and> 400 \<le> status \<and> status < 500)
   \<and> ask_question [''neo4j_config'' \<mapsto> PDict [], ''neo4j_connected'' \<mapsto> PBool True]
        (PDict [(''question'', PStr ''What is X?'')])
        = Event_stream (PStr ''What is X?'') (PBool True) (PStr ''Deeper'')"
proof -
  let ?sess = "[''neo4j_config'' \<mapsto> PDict [], ''neo4j_connected'' \<mapsto> PBool True]"
  have h1: "map_of [(''question'', PStr [])] ''question'' = Some (PStr [])" by simp
  have h2: "?sess ''neo4j_config'' \<noteq> None
        \<and> truthy (dict_get ?sess ''neo4j_connected'' PNone)
        \<and> PDict [(''question'', PStr ''What is X?'')] = PDict [(''question'', PStr ''What is X?'')]
        \<and> map_of [(''question'', PStr ''What is X?'')] ''question'' = Some (PStr ''What is X?'')
        \<and> truthy (PStr ''What is X?'')
        \<and> map_of [(''question'', PStr ''What is X?'')] ''enable_multi_hop'' = None
        \<and> map_of [(''question'', PStr ''What is X?'')] ''search_budget'' = None"
    by (simp add: dict_get_def)
  note a = ask_question_rejects_before_streaming[of ?sess "PDict [(''question'', PStr [])]"
          "[(''question'', PStr [])]" PNone PNone PNone PNone]
  note b = ask_question_rejects_before_streaming[of ?sess
          "PDict [(''question'', PStr ''What is X?'')]" "[(''question'', PStr ''What is X?'')]"
          PNone PNone PNone "PStr ''What is X?''"]
  from a h1 have r1: "\<exists>status msg. ask_question ?sess (PDict [(''question'', PStr [])])
                        = Response status msg \<and> 400 \<le> status \<and> status < 500"
    by blast
  from b h2 have r2: "ask_question ?sess (PDict [(''question'', PStr ''What is X?'')])
        = Event_stream (PStr ''What is X?'') (PBool True) (PStr ''Deeper'')"
    by blast
  from h1 r1 r2 show ?thesis by blast
qed

text \<open>
  C9 as the claim states it, for every body, fails when the body is not an object: for an
  authenticated caller whose body is the empty JSON list, so with no \<open>question\<close> in it,
  \<open>data.get\<close> raises and the answer has status 500, which is not a client error.
\<close>

theorem ask_question_list_body_counterexample:
  "ask_question [''neo4j_config'' \<mapsto> PDict [], ''neo4j_connected'' \<mapsto> PBool True] (PList [])
     = Response 500 ''Internal Server Error''"
  by (simp add: ask_question_def dict_get_def)

text \<open>
  C10. When the request passes the handler's checks, the image is saved and the
  segmentation returns both paths, the segmented one non-empty, the handler answers with
  status 200 and \<open>success\<close> true whatever happens in the description call; when that call
  reports failure, the description in the answer is the fixed fallback text.
\<close>

theorem upload_image_survives_description_failure:
  assumes "session rq ''neo4j_config'' \<noteq> None"
    and "truthy (dict_get (session rq) ''neo4j_connected'' PNone)"
    and "files rq ''image'' = Some filename"
    and "filename \<noteq> []"
    and "CHR ''.'' \<in> set filename"
    and "map lower_char (extension filename) \<in> allowed_extensions"
    and "save_uploaded_image rq = Inr (Some uploaded_path)"
    and "uploaded_path \<noteq> []"
    and "segment_image rq uploaded_path = Inr (Some segmented_path, Some original_path, seg_info)"
    and "segmented_path \<noteq> []"
  shows "\<exists>r. upload_image rq = Ok 200 r \<and> success r
           \<and> original_image r = ''/uploads/'' @ basename original_path
           \<and> segmented_image r = ''/segmented/'' @ basename segmented_path
           \<and> segmentation_info r = seg_info
           \<and> (\<not> fst (describe_medical_image (describe rq) segmented_path) \<longrightarrow>
                description r = Fallback_text)
           \<and> (fst (describe_medical_image (describe rq) segmented_path) \<longrightarrow>
                description r = snd (describe_medical_image (describe rq) segmented_path))"
proof -
  obtain ok tx where d: "describe_medical_image (describe rq) segmented_path = (ok, tx)"
    by (cases "describe_medical_image (describe rq) segmented_path")
  have "upload_image rq = describe_and_reply (describe rq) segmented_path (Some original_path) seg_info"
    using assms by (auto simp: upload_image_def)
  then show ?thesis
    by (simp add: describe_and_reply_def d)
qed

theorem upload_image_survives_description_failure_witness:
  "upload_image \<lparr>session = [''neo4j_config'' \<mapsto> PDict [], ''neo4j_connected'' \<mapsto> PBool True],
                 files = [''image'' \<mapsto> ''scan.PNG''],
                 save_uploaded_image = Inr (Some ''static/uploads/scan.PNG''),
                 segment_image = (\<lambda>p. Inr (Some ''static/segmented/scan_seg.png'', Some p, ())),
                 describe = \<lparr>path_exists = (\<lambda>p. True),
                             encode_image_to_base64 = (\<lambda>p. Some ''aGVsbG8=''),
                             post = Post_timeout\<rparr>\<rparr>
     = Ok 200 \<lparr>success = True, original_image = ''/uploads/scan.PNG'',
                segmented_image = ''/segmented/scan_seg.png'', segmentation_info = (),
                description = Fallback_text\<rparr>"
proof -
  let ?rq = "\<lparr>session = [''neo4j_config'' \<mapsto> PDict [], ''neo4j_connected'' \<mapsto> PBool True],
                 files = [''image'' \<mapsto> ''scan.PNG''],
                 save_uploaded_image = Inr (Some ''static/uploads/scan.PNG''),
                 segment_image = (\<lambda>p. Inr (Some ''static/segmented/scan_seg.png'', Some p, ())),
                 describe = \<lparr>path_exists = (\<lambda>p. True),
                             encode_image_to_base64 = (\<lambda>p. Some ''aGVsbG8=''),
                             post = Post_timeout\<rparr>\<rparr>"
  have ext: "map lower_char (extension ''scan.PNG'') \<in> allowed_extensions"
    by code_simp
  have fail: "\<not> fst (describe_medical_image (describe ?rq) ''static/segmented/scan_seg.png'')"
    by (simp add: describe_medical_image_def)
  from upload_image_survives_description_failure[of ?rq "''scan.PNG''" "''static/uploads/scan.PNG''"
         "''static/segmented/scan_seg.png''" "''static/uploads/scan.PNG''" "()"] ext fail
  show ?thesis
    by (auto simp: dict_get_def basename_def)
qed



end
